theory Spec2Isabelle
  imports Complex_Main
begin

section \<open>Values of the Python program\<close>

text \<open>
  A parsed JSON body, as \<^verbatim>\<open>response.json()\<close> returns it. Python's \<^verbatim>\<open>None\<close> is
  \<open>JNull\<close>. A JSON object is the association list of its dictionary, in insertion
  order, with distinct keys (the parser keeps one entry per key). Numbers are the
  integers; floating-point numbers are not modelled. A string holds one \<open>char\<close> for
  each character of the Python string.
\<close>

datatype json =
    JNull
  | JBool bool
  | JNum int
  | JStr string
  | JList "json list"
  | JObj "(string \<times> json) list"

text \<open>
  The exceptions that can leave \<^verbatim>\<open>get_paginated_data\<close>, and the one that can leave
  the constructor of the rate limiter.
\<close>

datatype error =
    RequestException string
  | JSONDecodeError string
  | AttributeError
  | TypeError
  | KeyError
  | ZeroDivisionError

type_synonym params = "(string \<times> json) list"

text \<open>Python's truth value of an object (\<^verbatim>\<open>if x:\<close>, \<^verbatim>\<open>not x\<close>).\<close>

fun truthy :: "json \<Rightarrow> bool" where
  "truthy JNull = False"
| "truthy (JBool b) = b"
| "truthy (JNum n) = (n \<noteq> 0)"
| "truthy (JStr s) = (s \<noteq> [])"
| "truthy (JList xs) = (xs \<noteq> [])"
| "truthy (JObj kvs) = (kvs \<noteq> [])"

text \<open>An optional string argument is truthy when it is given and not empty.\<close>

fun str_truthy :: "string option \<Rightarrow> bool" where
  "str_truthy None = False"
| "str_truthy (Some s) = (s \<noteq> [])"

text \<open>\<^verbatim>\<open>d[k] = v\<close> on a dictionary: an existing key keeps its place, a new one goes last.\<close>

fun dict_set :: "params \<Rightarrow> string \<Rightarrow> json \<Rightarrow> params" where
  "dict_set [] k v = [(k, v)]"
| "dict_set ((k', v') # d) k v = (if k' = k then (k, v) # d else (k', v') # dict_set d k v)"

text \<open>\<^verbatim>\<open>d.update(other)\<close>.\<close>

fun dict_update :: "params \<Rightarrow> params \<Rightarrow> params" where
  "dict_update d [] = d"
| "dict_update d ((k, v) # other) = dict_update (dict_set d k v) other"

text \<open>\<^verbatim>\<open>s.startswith(p)\<close> and \<^verbatim>\<open>p in s\<close> on strings.\<close>

fun startswith :: "string \<Rightarrow> string \<Rightarrow> bool" where
  "startswith s [] = True"
| "startswith [] (c # p) = False"
| "startswith (d # s) (c # p) = (d = c \<and> startswith s p)"

fun str_contains :: "string \<Rightarrow> string \<Rightarrow> bool" where
  "str_contains p [] = (p = [])"
| "str_contains p (c # s) = (startswith (c # s) p \<or> str_contains p s)"

text \<open>
  \<^verbatim>\<open>key in data\<close>, where the key is a string or \<^verbatim>\<open>None\<close>: key membership on a
  dictionary, element membership on a list, substring search on a string (a
  \<^verbatim>\<open>TypeError\<close> for the key \<^verbatim>\<open>None\<close>), and a \<^verbatim>\<open>TypeError\<close> on the values that
  are not containers.
\<close>

fun key_json :: "string option \<Rightarrow> json" where
  "key_json None = JNull"
| "key_json (Some k) = JStr k"

fun py_contains :: "string option \<Rightarrow> json \<Rightarrow> error + bool" where
  "py_contains None (JObj kvs) = Inr False"
| "py_contains (Some k) (JObj kvs) = Inr (map_of kvs k \<noteq> None)"
| "py_contains k (JList xs) = Inr (List.member xs (key_json k))"
| "py_contains None (JStr s) = Inl TypeError"
| "py_contains (Some k) (JStr s) = Inr (str_contains k s)"
| "py_contains k JNull = Inl TypeError"
| "py_contains k (JBool b) = Inl TypeError"
| "py_contains k (JNum n) = Inl TypeError"

text \<open>
  \<^verbatim>\<open>data[key]\<close> for such a key: the entry of a dictionary or a \<^verbatim>\<open>KeyError\<close>; a
  \<^verbatim>\<open>TypeError\<close> on every other value (a list and a string want an integer index, the
  rest are not subscriptable).
\<close>

fun py_getitem :: "json \<Rightarrow> string option \<Rightarrow> error + json" where
  "py_getitem (JObj kvs) (Some k) = (case map_of kvs k of None \<Rightarrow> Inl KeyError | Some v \<Rightarrow> Inr v)"
| "py_getitem (JObj kvs) None = Inl KeyError"
| "py_getitem d k = Inl TypeError"

text \<open>
  \<^verbatim>\<open>data.get(key, default)\<close>: only a dictionary has the method, every other value
  raises \<^verbatim>\<open>AttributeError\<close>.
\<close>

fun py_get :: "json \<Rightarrow> string \<Rightarrow> json \<Rightarrow> error + json" where
  "py_get (JObj kvs) k dflt = Inr (case map_of kvs k of None \<Rightarrow> dflt | Some v \<Rightarrow> v)"
| "py_get d k dflt = Inl AttributeError"

text \<open>
  The elements \<^verbatim>\<open>list.extend(x)\<close> appends: those of a list, the characters of a
  string, the keys of a dictionary; the other values are not iterable
  (\<^verbatim>\<open>TypeError\<close>, here \<open>None\<close>). \<^verbatim>\<open>len(x)\<close> is the number of these elements.
\<close>

fun py_iter :: "json \<Rightarrow> json list option" where
  "py_iter (JList xs) = Some xs"
| "py_iter (JStr s) = Some (map (\<lambda>c. JStr [c]) s)"
| "py_iter (JObj kvs) = Some (map (\<lambda>kv. JStr (fst kv)) kvs)"
| "py_iter v = None"

fun is_list :: "json \<Rightarrow> bool" where
  "is_list (JList xs) = True"
| "is_list v = False"

section \<open>The client, its configuration and the state of the loop\<close>

text \<open>
  One request as \<^verbatim>\<open>_make_request\<close> issues it: the endpoint it was given, the URL it
  built with \<^verbatim>\<open>urljoin(self.base_url, endpoint)\<close>, and the query parameters.
\<close>

record request =
  req_endpoint :: string
  req_url :: string
  req_params :: params

text \<open>
  What comes back: a body that parsed as JSON, a failure of the transport
  (\<^verbatim>\<open>requests.RequestException\<close>, also raised by \<^verbatim>\<open>raise_for_status\<close>), or a body
  that \<^verbatim>\<open>response.json()\<close> cannot parse.
\<close>

datatype response =
    Body json
  | RequestFailed string
  | InvalidJSON string

text \<open>The parts of a URL that the loop reads from \<^verbatim>\<open>urlparse\<close>.\<close>

record parsed_url =
  url_scheme :: string
  url_netloc :: string
  url_path :: string
  url_query :: string
  url_fragment :: string

text \<open>
  The client: \<^verbatim>\<open>self.base_url\<close>, the three functions of \<^verbatim>\<open>urllib.parse\<close> that the
  loop calls, and the HTTP session. The library functions and the remote server are not
  code of the repository, so they are parameters. The server answers a request knowing
  how many requests of the run came before it.
\<close>

record client =
  base_url :: string
  urljoin :: "string \<Rightarrow> string \<Rightarrow> string"
  urlparse :: "string \<Rightarrow> parsed_url"
  parse_qs :: "string \<Rightarrow> (string \<times> string list) list"
  session :: "nat \<Rightarrow> request \<Rightarrow> response"

text \<open>
  The arguments of \<^verbatim>\<open>get_paginated_data\<close>. \<^verbatim>\<open>custom_params\<close> is a dictionary;
  \<^verbatim>\<open>None\<close> and the empty dictionary behave alike in the code and are both \<open>[]\<close>.
\<close>

record config =
  endpoint :: string
  page_size :: int
  max_pages :: "int option"
  pagination_type :: string
  page_param :: string
  size_param :: string
  offset_param :: string
  data_key :: "string option"
  next_page_key :: "string option"
  total_key :: "string option"
  custom_params :: params
  stop_condition :: "(json \<Rightarrow> bool) option"
  start_page :: int

text \<open>
  The local variables of \<^verbatim>\<open>get_paginated_data\<close>, with the log of the requests issued
  so far. \<open>endpoint_var\<close> is the parameter \<^verbatim>\<open>endpoint\<close>, which the loop reassigns.
  \<open>cursor\<close> and \<open>total_items\<close> are \<open>JNull\<close> while they are \<^verbatim>\<open>None\<close>.
\<close>

record loop_state =
  all_data :: "json list"
  page :: int
  offset :: int
  cursor :: json
  next_url :: "string option"
  total_items :: json
  pages_retrieved :: int
  endpoint_var :: string
  requests :: "request list"

definition init_state :: "config \<Rightarrow> loop_state" where
  "init_state cfg =
     \<lparr> all_data = [],
       page = (if pagination_type cfg \<in> set [''page'', ''url''] then start_page cfg else 0),
       offset = 0,
       cursor = JNull,
       next_url = None,
       total_items = JNull,
       pages_retrieved = 0,
       endpoint_var = endpoint cfg,
       requests = [] \<rparr>"

section \<open>Response extraction\<close>

text \<open>
  The loop over \<^verbatim>\<open>common_keys\<close> in \<^verbatim>\<open>_find_data_array\<close>: the first key that is in the
  response with a list as its value.
\<close>

fun find_common :: "string list \<Rightarrow> json \<Rightarrow> error + json option" where
  "find_common [] d = Inr None"
| "find_common (k # ks) d =
     (case py_contains (Some k) d of
        Inl e \<Rightarrow> Inl e
      | Inr False \<Rightarrow> find_common ks d
      | Inr True \<Rightarrow>
          (case py_getitem d (Some k) of
             Inl e \<Rightarrow> Inl e
           | Inr v \<Rightarrow> if is_list v then Inr (Some v) else find_common ks d))"

definition common_keys :: "string list" where
  "common_keys = [''results'', ''data'', ''items'', ''records'', ''rows'', ''entries'']"

text \<open>\<^verbatim>\<open>response_data.values()\<close>: only a dictionary has the method.\<close>

fun py_values :: "json \<Rightarrow> error + json list" where
  "py_values (JObj kvs) = Inr (map snd kvs)"
| "py_values d = Inl AttributeError"

definition find_data_array :: "json \<Rightarrow> error + json" where
  "find_data_array response_data =
     (case find_common common_keys response_data of
        Inl e \<Rightarrow> Inl e
      | Inr (Some v) \<Rightarrow> Inr v
      | Inr None \<Rightarrow>
          (case py_values response_data of
             Inl e \<Rightarrow> Inl e
           | Inr vs \<Rightarrow>
               (case filter is_list vs of
                  [] \<Rightarrow> Inr (JList [])
                | v # _ \<Rightarrow> Inr v)))"

text \<open>
  The extraction of the items at the head of the \<^verbatim>\<open>try\<close> block, the same in
  \<^verbatim>\<open>get_paginated_data\<close> and \<^verbatim>\<open>get_paginated_data_by_url\<close>.
\<close>

definition extract_items :: "string option \<Rightarrow> json \<Rightarrow> error + json" where
  "extract_items dkey data =
     (if str_truthy dkey then py_get data (the dkey) (JList [])
      else if is_list data then Inr data
      else find_data_array data)"

section \<open>The loop of \<^verbatim>\<open>get_paginated_data\<close>\<close>

text \<open>
  The comprehension that turns the result of \<^verbatim>\<open>parse_qs\<close> into request parameters:
  \<^verbatim>\<open>{k: v[0] if len(v) == 1 else v for k, v in url_params.items()}\<close>.
\<close>

definition single_values :: "(string \<times> string list) list \<Rightarrow> params" where
  "single_values url_params =
     map (\<lambda>(k, v). (k, case v of [x] \<Rightarrow> JStr x | _ \<Rightarrow> JList (map JStr v))) url_params"

text \<open>
  The head of the loop body: the endpoint and the parameters of the next request, by
  the chain of \<^verbatim>\<open>if\<close>/\<^verbatim>\<open>elif\<close> on the pagination type. A pagination type that is
  none of the four sends the custom parameters alone.
\<close>

definition build_request :: "client \<Rightarrow> config \<Rightarrow> loop_state \<Rightarrow> string \<times> params" where
  "build_request cl cfg st =
     (let params = custom_params cfg in
      if pagination_type cfg = ''url'' \<and> str_truthy (next_url st) then
        (let parsed = urlparse cl (the (next_url st));
             params' = single_values (parse_qs cl (url_query parsed))
         in (url_path parsed,
             if custom_params cfg \<noteq> [] then dict_update params' (custom_params cfg) else params'))
      else if pagination_type cfg = ''page'' then
        (endpoint_var st,
         dict_set (dict_set params (page_param cfg) (JNum (page st)))
           (size_param cfg) (JNum (page_size cfg)))
      else if pagination_type cfg = ''offset'' then
        (endpoint_var st,
         dict_set (dict_set params (offset_param cfg) (JNum (offset st)))
           (size_param cfg) (JNum (page_size cfg)))
      else if pagination_type cfg = ''cursor'' \<and> truthy (cursor st) then
        (endpoint_var st,
         dict_set (dict_set params ''cursor'' (cursor st))
           (size_param cfg) (JNum (page_size cfg)))
      else if pagination_type cfg = ''cursor'' \<and> \<not> truthy (cursor st) then
        (endpoint_var st, dict_set params (size_param cfg) (JNum (page_size cfg)))
      else if pagination_type cfg = ''url'' then
        (endpoint_var st,
         dict_set (dict_set params (page_param cfg) (JNum (page st)))
           (size_param cfg) (JNum (page_size cfg)))
      else (endpoint_var st, params))"

text \<open>\<^verbatim>\<open>_make_request\<close>: the URL is \<^verbatim>\<open>urljoin(self.base_url, endpoint)\<close>.\<close>

definition make_request :: "client \<Rightarrow> string \<Rightarrow> params \<Rightarrow> request" where
  "make_request cl ep ps =
     \<lparr> req_endpoint = ep, req_url = urljoin cl (base_url cl) ep, req_params = ps \<rparr>"

text \<open>How one pass through the loop body ends.\<close>

datatype step_result =
    Continue loop_state
  | Break loop_state
  | Raise error loop_state

text \<open>
  \<^verbatim>\<open>next_page_key in data and data[next_page_key]\<close>: the value under the key when it
  is there and truthy.
\<close>

definition next_page_value :: "string option \<Rightarrow> json \<Rightarrow> error + json option" where
  "next_page_value k data =
     (case py_contains k data of
        Inl e \<Rightarrow> Inl e
      | Inr False \<Rightarrow> Inr None
      | Inr True \<Rightarrow>
          (case py_getitem data k of
             Inl e \<Rightarrow> Inl e
           | Inr v \<Rightarrow> Inr (if truthy v then Some v else None)))"

text \<open>
  \<^verbatim>\<open>total_items and offset >= total_items\<close>: an integer compares, \<^verbatim>\<open>True\<close> is 1, and a
  truthy string, list or dictionary raises \<^verbatim>\<open>TypeError\<close> in the comparison.
\<close>

fun total_reached :: "json \<Rightarrow> int \<Rightarrow> error + bool" where
  "total_reached JNull off = Inr False"
| "total_reached (JBool b) off = Inr (b \<and> off \<ge> 1)"
| "total_reached (JNum t) off = Inr (t \<noteq> 0 \<and> off \<ge> t)"
| "total_reached v off = (if truthy v then Inl TypeError else Inr False)"

text \<open>
  The tail of the loop body, "prepare for next iteration based on pagination type".
  \<open>n\<close> is \<^verbatim>\<open>len(items)\<close>.
\<close>

definition advance :: "client \<Rightarrow> config \<Rightarrow> loop_state \<Rightarrow> json \<Rightarrow> nat \<Rightarrow> step_result" where
  "advance cl cfg st data n =
     (if pagination_type cfg = ''url'' then
        (case next_page_value (next_page_key cfg) data of
           Inl e \<Rightarrow> Raise e st
         | Inr (Some v) \<Rightarrow>
             (case v of
                JStr s \<Rightarrow>
                  Continue (st\<lparr>next_url :=
                    Some (if \<not> (startswith s ''http://'' \<or> startswith s ''https://'')
                          then urljoin cl (base_url cl) s else s)\<rparr>)
              | _ \<Rightarrow> Raise AttributeError st)
         | Inr None \<Rightarrow>
             if int n < page_size cfg then Break st
             else Continue (st\<lparr>page := page st + 1\<rparr>))
      else if pagination_type cfg = ''cursor'' then
        (case next_page_value (next_page_key cfg) data of
           Inl e \<Rightarrow> Raise e st
         | Inr (Some v) \<Rightarrow> Continue (st\<lparr>cursor := v\<rparr>)
         | Inr None \<Rightarrow> Break st)
      else if pagination_type cfg = ''page'' then
        (if int n < page_size cfg then Break st
         else Continue (st\<lparr>page := page st + 1\<rparr>))
      else if pagination_type cfg = ''offset'' then
        (if int n < page_size cfg then Break st
         else
           (let st' = st\<lparr>offset := offset st + int n\<rparr> in
            case total_reached (total_items st') (offset st') of
              Inl e \<Rightarrow> Raise e st'
            | Inr True \<Rightarrow> Break st'
            | Inr False \<Rightarrow> Continue st'))
      else Continue st)"

text \<open>
  \<^verbatim>\<open>if total_key and total_items is None: total_items = data.get(total_key)\<close>.
\<close>

definition record_total :: "config \<Rightarrow> loop_state \<Rightarrow> json \<Rightarrow> error + loop_state" where
  "record_total cfg st data =
     (if str_truthy (total_key cfg) \<and> total_items st = JNull then
        (case py_get data (the (total_key cfg)) JNull of
           Inl e \<Rightarrow> Inl e
         | Inr t \<Rightarrow> Inr (st\<lparr>total_items := t\<rparr>))
      else Inr st)"

text \<open>\<^verbatim>\<open>max_pages and pages_retrieved >= max_pages\<close>.\<close>

definition max_pages_reached :: "config \<Rightarrow> loop_state \<Rightarrow> bool" where
  "max_pages_reached cfg st =
     (case max_pages cfg of
        None \<Rightarrow> False
      | Some m \<Rightarrow> m \<noteq> 0 \<and> pages_retrieved st \<ge> m)"

text \<open>\<^verbatim>\<open>stop_condition and stop_condition(data)\<close>.\<close>

definition stop_condition_met :: "config \<Rightarrow> json \<Rightarrow> bool" where
  "stop_condition_met cfg data =
     (case stop_condition cfg of
        None \<Rightarrow> False
      | Some f \<Rightarrow> f data)"

text \<open>The body of the \<^verbatim>\<open>try\<close> block once the response has parsed as \<open>data\<close>.\<close>

definition process_page :: "client \<Rightarrow> config \<Rightarrow> loop_state \<Rightarrow> json \<Rightarrow> step_result" where
  "process_page cl cfg st data =
     (case extract_items (data_key cfg) data of
        Inl e \<Rightarrow> Raise e st
      | Inr items \<Rightarrow>
          if \<not> truthy items then Break st
          else
            (case py_iter items of
               None \<Rightarrow> Raise TypeError st
             | Some xs \<Rightarrow>
                 (let st1 = st\<lparr>all_data := all_data st @ xs,
                               pages_retrieved := pages_retrieved st + 1\<rparr>
                  in case record_total cfg st1 data of
                       Inl e \<Rightarrow> Raise e st1
                     | Inr st2 \<Rightarrow>
                         if max_pages_reached cfg st2 then Break st2
                         else if stop_condition_met cfg data then Break st2
                         else advance cl cfg st2 data (length xs))))"

text \<open>
  One pass through the body of \<^verbatim>\<open>while True\<close>. The two \<^verbatim>\<open>except\<close> clauses log and
  re-raise, and an exception they do not name leaves the function as well.
\<close>

definition step :: "client \<Rightarrow> config \<Rightarrow> loop_state \<Rightarrow> step_result" where
  "step cl cfg st =
     (let (ep, ps) = build_request cl cfg st;
          rq = make_request cl ep ps;
          st' = st\<lparr>endpoint_var := ep, requests := requests st @ [rq]\<rparr>
      in case session cl (length (requests st)) rq of
           RequestFailed m \<Rightarrow> Raise (RequestException m) st'
         | InvalidJSON m \<Rightarrow> Raise (JSONDecodeError m) st'
         | Body data \<Rightarrow> process_page cl cfg st' data)"

text \<open>
  The loop, with fuel: \<open>None\<close> when the fuel runs out before the loop ends. A result is
  the returned \<^verbatim>\<open>all_data\<close> or the exception raised, with the log of the requests.
\<close>

fun run :: "nat \<Rightarrow> client \<Rightarrow> config \<Rightarrow> loop_state \<Rightarrow> ((error + json list) \<times> request list) option" where
  "run 0 cl cfg st = None"
| "run (Suc fuel) cl cfg st =
     (case step cl cfg st of
        Continue st' \<Rightarrow> run fuel cl cfg st'
      | Break st' \<Rightarrow> Some (Inr (all_data st'), requests st')
      | Raise e st' \<Rightarrow> Some (Inl e, requests st'))"

definition get_paginated_data :: "nat \<Rightarrow> client \<Rightarrow> config \<Rightarrow> ((error + json list) \<times> request list) option" where
  "get_paginated_data fuel cl cfg = run fuel cl cfg (init_state cfg)"

text \<open>The state at the head of the \<open>n\<close>-th pass of the loop, if the loop gets there.\<close>

fun state_at :: "nat \<Rightarrow> client \<Rightarrow> config \<Rightarrow> loop_state \<Rightarrow> loop_state option" where
  "state_at 0 cl cfg st = Some st"
| "state_at (Suc n) cl cfg st =
     (case step cl cfg st of
        Continue st' \<Rightarrow> state_at n cl cfg st'
      | _ \<Rightarrow> None)"

section \<open>The rate limiter\<close>

text \<open>
  \<^verbatim>\<open>class RateLimiter\<close>. Times are seconds on the clock that \<^verbatim>\<open>time.time()\<close> reads,
  taken as exact real numbers: the rounding of floating-point arithmetic is not
  modelled.
\<close>

record RateLimiter =
  calls_per_second :: real
  min_interval :: real
  last_call_time :: real

definition RateLimiter_init :: "real \<Rightarrow> error + RateLimiter" where
  "RateLimiter_init cps =
     (if cps = 0 then Inl ZeroDivisionError
      else Inr \<lparr> calls_per_second = cps, min_interval = 1 / cps, last_call_time = 0 \<rparr>)"

text \<open>
  \<^verbatim>\<open>wait_if_needed\<close>. \<open>current_time\<close> is the first reading of the clock. \<open>lag\<close> is the
  time by which the second reading, after the sleep, is later than
  \<open>current_time + sleep_time\<close>: \<^verbatim>\<open>time.sleep\<close> suspends for at least the time asked,
  so \<open>lag\<close> is not negative. The result is the limiter, the time slept and the second
  reading, at which the method returns.
\<close>

definition wait_if_needed :: "RateLimiter \<Rightarrow> real \<Rightarrow> real \<Rightarrow> RateLimiter \<times> real \<times> real" where
  "wait_if_needed rl current_time lag =
     (let time_since_last_call = current_time - last_call_time rl;
          sleep_time = (if time_since_last_call < min_interval rl
                        then min_interval rl - time_since_last_call else 0);
          t = current_time + sleep_time + lag
      in (rl\<lparr>last_call_time := t\<rparr>, sleep_time, t))"

text \<open>
  Consecutive invocations. The clock reads \<open>t\<close> when the run starts; each invocation
  is a pair \<open>(gap, lag)\<close>: it is entered \<open>gap\<close> seconds after the one before it
  returned, and its own second reading lags by \<open>lag\<close>. The result lists the times at
  which the invocations return.
\<close>

fun invocations :: "RateLimiter \<Rightarrow> real \<Rightarrow> (real \<times> real) list \<Rightarrow> real list" where
  "invocations rl t [] = []"
| "invocations rl t ((gap, lag) # rest) =
     (case wait_if_needed rl (t + gap) lag of
        (rl', slept, t') \<Rightarrow> t' # invocations rl' t' rest)"

section \<open>The standard library's URL functions on plain URLs\<close>

text \<open>
  An executable model of \<^verbatim>\<open>urllib.parse\<close> for the concrete runs below. It covers URLs
  of printable characters with no \<^verbatim>\<open>;\<close> parameters and no \<^verbatim>\<open>%\<close> or \<^verbatim>\<open>+\<close> escapes in
  the query. The general theorems do not depend on it: they hold for every choice of
  the three library functions.
\<close>

text \<open>\<^verbatim>\<open>s.split(sep)\<close> and \<^verbatim>\<open>s.split(sep, 1)\<close> for a separator of one character.\<close>

fun py_split :: "char \<Rightarrow> string \<Rightarrow> string list" where
  "py_split sep [] = [[]]"
| "py_split sep (c # s) =
     (if c = sep then [] # py_split sep s
      else (case py_split sep s of
              [] \<Rightarrow> [[c]]
            | w # ws \<Rightarrow> (c # w) # ws))"

definition split_once :: "char \<Rightarrow> string \<Rightarrow> string \<times> string option" where
  "split_once sep s =
     (case dropWhile (\<lambda>c. c \<noteq> sep) s of
        [] \<Rightarrow> (s, None)
      | _ # rest \<Rightarrow> (takeWhile (\<lambda>c. c \<noteq> sep) s, Some rest))"

text \<open>\<^verbatim>\<open>sep.join(parts)\<close>.\<close>

fun py_join :: "string \<Rightarrow> string list \<Rightarrow> string" where
  "py_join sep [] = []"
| "py_join sep [w] = w"
| "py_join sep (w # ws) = w @ sep @ py_join sep ws"

definition ascii_lower :: "char \<Rightarrow> char" where
  "ascii_lower c =
     (case map_of (zip ''ABCDEFGHIJKLMNOPQRSTUVWXYZ'' ''abcdefghijklmnopqrstuvwxyz'') c of
        None \<Rightarrow> c
      | Some l \<Rightarrow> l)"

definition is_alpha :: "char \<Rightarrow> bool" where
  "is_alpha c =
     List.member ''abcdefghijklmnopqrstuvwxyzABCDEFGHIJKLMNOPQRSTUVWXYZ'' c"

definition is_scheme_char :: "char \<Rightarrow> bool" where
  "is_scheme_char c = (is_alpha c \<or> List.member ''0123456789+-.'' c)"

text \<open>\<^verbatim>\<open>urlsplit(url, scheme)\<close>, and \<^verbatim>\<open>urlparse\<close> on a URL without parameters.\<close>

definition py_urlsplit :: "string \<Rightarrow> string \<Rightarrow> parsed_url" where
  "py_urlsplit url dflt =
     (let (pre, post) = split_once (CHR '':'') url;
          has_scheme = (post \<noteq> None \<and> pre \<noteq> [] \<and> is_alpha (hd pre) \<and> list_all is_scheme_char pre);
          scheme = (if has_scheme then map ascii_lower pre else dflt);
          url1 = (if has_scheme then the post else url);
          has_netloc = startswith url1 ''//'';
          after = drop 2 url1;
          netloc = (if has_netloc then takeWhile (\<lambda>c. \<not> List.member ''/?#'' c) after else []);
          url2 = (if has_netloc then dropWhile (\<lambda>c. \<not> List.member ''/?#'' c) after else url1);
          (url3, fragment) = split_once (CHR ''#'') url2;
          (path, query) = split_once (CHR ''?'') url3
      in \<lparr> url_scheme = scheme, url_netloc = netloc, url_path = path,
           url_query = (case query of None \<Rightarrow> [] | Some q \<Rightarrow> q),
           url_fragment = (case fragment of None \<Rightarrow> [] | Some f \<Rightarrow> f) \<rparr>)"

definition py_urlparse :: "string \<Rightarrow> parsed_url" where
  "py_urlparse url = py_urlsplit url []"

definition uses_relative :: "string list" where
  "uses_relative = [[], ''ftp'', ''http'', ''gopher'', ''nntp'', ''imap'', ''wais'', ''file'',
     ''https'', ''shttp'', ''mms'', ''prospero'', ''rtsp'', ''rtsps'', ''rtspu'', ''sftp'',
     ''svn'', ''svn+ssh'', ''ws'', ''wss'']"

definition uses_netloc :: "string list" where
  "uses_netloc = [[], ''ftp'', ''http'', ''gopher'', ''nntp'', ''telnet'', ''imap'', ''wais'',
     ''file'', ''mms'', ''https'', ''shttp'', ''snews'', ''prospero'', ''rtsp'', ''rtsps'',
     ''rtspu'', ''rsync'', ''svn'', ''svn+ssh'', ''sftp'', ''nfs'', ''git'', ''git+ssh'',
     ''ws'', ''wss'', ''itms-services'']"

definition py_urlunsplit :: "parsed_url \<Rightarrow> string" where
  "py_urlunsplit u =
     (let url = url_path u;
          url = (if url_netloc u \<noteq> [] \<or>
                    (url_scheme u \<noteq> [] \<and> List.member uses_netloc (url_scheme u) \<and>
                     \<not> startswith url ''//'')
                 then ''//'' @ url_netloc u @
                      (if url \<noteq> [] \<and> \<not> startswith url ''/'' then ''/'' @ url else url)
                 else url);
          url = (if url_scheme u \<noteq> [] then url_scheme u @ '':'' @ url else url);
          url = (if url_query u \<noteq> [] then url @ ''?'' @ url_query u else url)
      in if url_fragment u \<noteq> [] then url @ ''#'' @ url_fragment u else url)"

text \<open>The loop of \<^verbatim>\<open>urljoin\<close> that resolves the dot segments.\<close>

fun resolve_segments :: "string list \<Rightarrow> string list \<Rightarrow> string list" where
  "resolve_segments acc [] = acc"
| "resolve_segments acc (seg # segs) =
     (if seg = ''..'' then resolve_segments (butlast acc) segs
      else if seg = ''.'' then resolve_segments acc segs
      else resolve_segments (acc @ [seg]) segs)"

definition py_urljoin :: "string \<Rightarrow> string \<Rightarrow> string" where
  "py_urljoin base url =
     (if base = [] then url
      else if url = [] then base
      else
        (let b = py_urlsplit base [];
             u = py_urlsplit url (url_scheme b)
         in if url_scheme u \<noteq> url_scheme b \<or> \<not> List.member uses_relative (url_scheme u) then url
            else if List.member uses_netloc (url_scheme u) \<and> url_netloc u \<noteq> [] then py_urlunsplit u
            else
              (let netloc = (if List.member uses_netloc (url_scheme u) then url_netloc b
                             else url_netloc u)
               in if url_path u = [] then
                    py_urlunsplit (u\<lparr>url_netloc := netloc, url_path := url_path b,
                      url_query := (if url_query u = [] then url_query b else url_query u)\<rparr>)
                  else
                    (let base_parts = py_split (CHR ''/'') (url_path b);
                         base_parts = (if last base_parts \<noteq> [] then butlast base_parts
                                       else base_parts);
                         segments =
                           (if startswith (url_path u) ''/'' then py_split (CHR ''/'') (url_path u)
                            else
                              (let segs = base_parts @ py_split (CHR ''/'') (url_path u)
                               in take 1 segs @
                                  filter (\<lambda>w. w \<noteq> []) (butlast (drop 1 segs)) @
                                  (if length segs > 1 then [last segs] else [])));
                         resolved = resolve_segments [] segments;
                         resolved = (if last segments = ''.'' \<or> last segments = ''..''
                                     then resolved @ [[]] else resolved);
                         joined = py_join ''/'' resolved
                     in py_urlunsplit (u\<lparr>url_netloc := netloc,
                          url_path := (if joined = [] then ''/'' else joined)\<rparr>)))))"

text \<open>
  \<^verbatim>\<open>parse_qs\<close> with its default arguments: fields are separated by \<^verbatim>\<open>&\<close>, a field
  with no \<^verbatim>\<open>=\<close> or with a blank value is dropped, and the values of a name are
  collected in order under its first occurrence.
\<close>

fun add_field :: "(string \<times> string list) list \<Rightarrow> string \<Rightarrow> string \<Rightarrow> (string \<times> string list) list" where
  "add_field [] name v = [(name, [v])]"
| "add_field ((n, vs) # d) name v =
     (if n = name then (n, vs @ [v]) # d else (n, vs) # add_field d name v)"

fun parse_fields :: "(string \<times> string list) list \<Rightarrow> string list \<Rightarrow> (string \<times> string list) list" where
  "parse_fields d [] = d"
| "parse_fields d (name_value # rest) =
     (case split_once (CHR ''='') name_value of
        (name, None) \<Rightarrow> parse_fields d rest
      | (name, Some v) \<Rightarrow>
          if v \<noteq> [] then parse_fields (add_field d name v) rest
          else parse_fields d rest)"

definition py_parse_qs :: "string \<Rightarrow> (string \<times> string list) list" where
  "py_parse_qs qs = parse_fields [] (py_split (CHR ''&'') qs)"

text \<open>
  The constructor \<^verbatim>\<open>PaginatedAPIClient(base_url)\<close>: the base URL loses its trailing
  slashes. The session is the server the client talks to.
\<close>

definition rstrip_slash :: "string \<Rightarrow> string" where
  "rstrip_slash s = rev (dropWhile (\<lambda>c. c = CHR ''/'') (rev s))"

definition PaginatedAPIClient :: "string \<Rightarrow> (nat \<Rightarrow> request \<Rightarrow> response) \<Rightarrow> client" where
  "PaginatedAPIClient b srv =
     \<lparr> base_url = rstrip_slash b, urljoin = py_urljoin, urlparse = py_urlparse,
       parse_qs = py_parse_qs, session = srv \<rparr>"

section \<open>Observing a run\<close>

text \<open>The state in which a pass through the loop body ends, and whether it raised.\<close>

fun result_state :: "step_result \<Rightarrow> loop_state" where
  "result_state (Continue st) = st"
| "result_state (Break st) = st"
| "result_state (Raise e st) = st"

fun is_raise :: "step_result \<Rightarrow> bool" where
  "is_raise (Raise e st) = True"
| "is_raise r = False"

text \<open>The request that the pass starting in a state issues.\<close>

definition next_request :: "client \<Rightarrow> config \<Rightarrow> loop_state \<Rightarrow> request" where
  "next_request cl cfg st =
     make_request cl (fst (build_request cl cfg st)) (snd (build_request cl cfg st))"

text \<open>
  The responses that the server gave to the requests of a log, the \<open>n\<close>-th request of
  the run first.
\<close>

fun fetched :: "client \<Rightarrow> nat \<Rightarrow> request list \<Rightarrow> response list" where
  "fetched cl n [] = []"
| "fetched cl n (rq # rqs) = session cl n rq # fetched cl (Suc n) rqs"

fun is_body :: "response \<Rightarrow> bool" where
  "is_body (Body d) = True"
| "is_body r = False"

text \<open>
  The items that the loop takes from one response: the elements of what the extraction
  returns, and nothing where the response is not a body or yields no elements.
\<close>

definition page_items :: "config \<Rightarrow> response \<Rightarrow> json list" where
  "page_items cfg r =
     (case r of
        Body data \<Rightarrow>
          (case extract_items (data_key cfg) data of
             Inl e \<Rightarrow> []
           | Inr items \<Rightarrow> (case py_iter items of None \<Rightarrow> [] | Some xs \<Rightarrow> xs))
      | _ \<Rightarrow> [])"

text \<open>Invariants of the loop, stated on the state at the head of a pass.\<close>

definition data_inv :: "client \<Rightarrow> config \<Rightarrow> loop_state \<Rightarrow> bool" where
  "data_inv cl cfg st \<longleftrightarrow>
     all_data st = concat (map (page_items cfg) (fetched cl 0 (requests st)))"

definition bodies_inv :: "client \<Rightarrow> loop_state \<Rightarrow> bool" where
  "bodies_inv cl st \<longleftrightarrow> list_all is_body (fetched cl 0 (requests st))"


section \<open>Configurations and servers for concrete runs\<close>

text \<open>The default values of the arguments of \<^verbatim>\<open>get_paginated_data\<close>.\<close>

definition default_config :: "string \<Rightarrow> config" where
  "default_config ep =
     \<lparr> endpoint = ep, page_size = 100, max_pages = None, pagination_type = ''offset'',
       page_param = ''page'', size_param = ''page_size'', offset_param = ''offset'',
       data_key = None, next_page_key = Some ''next'', total_key = Some ''total'',
       custom_params = [], stop_condition = None, start_page = 1 \<rparr>"

text \<open>
  A server for the URL strategy: the first page carries a relative next-link, the two
  pages after it are full and carry none, and the page after those is empty.
\<close>

definition stale_server :: "nat \<Rightarrow> request \<Rightarrow> response" where
  "stale_server n rq =
     (if n = 0 then
        Body (JObj [(''items'', JList [JNum 1, JNum 2]), (''next'', JStr ''/j?p=9'')])
      else if n < 3 then Body (JObj [(''items'', JList [JNum 3, JNum 4])])
      else Body (JObj [(''items'', JList [])]))"

definition url_config :: config where
  "url_config = (default_config ''/i'')\<lparr>pagination_type := ''url'', page_size := 2\<rparr>"

text \<open>
  A server whose first page links to a next page on another host, and which serves an
  empty page after it.
\<close>

definition foreign_server :: "nat \<Rightarrow> request \<Rightarrow> response" where
  "foreign_server n rq =
     (if n = 0 then
        Body (JObj [(''items'', JList [JNum 1, JNum 2]), (''next'', JStr ''http://b/i?page=2'')])
      else Body (JObj [(''items'', JList [])]))"

text \<open>A server that serves \<open>full\<close> full pages of two items and empty pages after them.\<close>

definition full_pages_server :: "nat \<Rightarrow> nat \<Rightarrow> request \<Rightarrow> response" where
  "full_pages_server full n rq =
     (if n < full then Body (JObj [(''items'', JList [JNum (int (2 * n)), JNum (int (2 * n + 1))])])
      else Body (JObj [(''items'', JList [])]))"

definition page_config :: "int option \<Rightarrow> config" where
  "page_config m =
     (default_config ''/i'')\<lparr>pagination_type := ''page'', page_size := 2, max_pages := m\<rparr>"

text \<open>A server that always serves a full page of \<open>ps\<close> synthetic items.\<close>

definition always_full_server :: "nat \<Rightarrow> nat \<Rightarrow> request \<Rightarrow> response" where
  "always_full_server ps n rq =
     Body (JObj [(''items'', JList (map (\<lambda>i. JNum (int (n * ps + i))) [0..<ps]))])"

text \<open>
  The simulated endpoint of the offset strategy: it holds the items \<open>0, \<dots>, tot - 1\<close>
  and answers a request for \<^verbatim>\<open>offset\<close> and \<^verbatim>\<open>page_size\<close> with the items from the offset
  on, at most a page of them, and with the total when \<open>with_total\<close> is set.
\<close>

definition offset_endpoint :: "nat \<Rightarrow> bool \<Rightarrow> nat \<Rightarrow> request \<Rightarrow> response" where
  "offset_endpoint tot with_total n rq =
     (case (map_of (req_params rq) ''offset'', map_of (req_params rq) ''page_size'') of
        (Some (JNum off), Some (JNum sz)) \<Rightarrow>
          Body (JObj ((''items'',
                  JList (map (\<lambda>i. JNum (int i)) [nat off..<min tot (nat off + nat sz)])) #
                (if with_total then [(''total'', JNum (int tot))] else [])))
      | _ \<Rightarrow> RequestFailed ''bad request'')"

text \<open>The same endpoint answering with a bare JSON list of the items.\<close>

definition offset_list_endpoint :: "nat \<Rightarrow> nat \<Rightarrow> request \<Rightarrow> response" where
  "offset_list_endpoint tot n rq =
     (case (map_of (req_params rq) ''offset'', map_of (req_params rq) ''page_size'') of
        (Some (JNum off), Some (JNum sz)) \<Rightarrow>
          Body (JList (map (\<lambda>i. JNum (int i)) [nat off..<min tot (nat off + nat sz)]))
      | _ \<Rightarrow> RequestFailed ''bad request'')"

text \<open>A server for the cursor strategy: a page with a next token, then one without.\<close>

definition cursor_server :: "nat \<Rightarrow> request \<Rightarrow> response" where
  "cursor_server n rq =
     (if n = 0 then
        Body (JObj [(''items'', JList [JStr ''a'', JStr ''b'']), (''next'', JStr ''tok1'')])
      else Body (JObj [(''items'', JList [JStr ''c'']), (''next'', JNull)]))"

definition cursor_config :: config where
  "cursor_config = (default_config ''/i'')\<lparr>pagination_type := ''cursor'', page_size := 2\<rparr>"

text \<open>A server whose second response is a failure of the transport.\<close>

definition failing_server :: "nat \<Rightarrow> request \<Rightarrow> response" where
  "failing_server n rq =
     (if n = 0 then Body (JObj [(''items'', JList [JNum 1, JNum 2])])
      else RequestFailed ''timeout'')"

text \<open>
  The run of the offset strategy against the simulated endpoint: the body the endpoint
  answers with, the total it reports, the \<open>k\<close>-th request of the run, and the state
  at the head of the \<open>k\<close>-th pass of the loop.
\<close>

definition offset_body :: "nat \<Rightarrow> bool \<Rightarrow> json list \<Rightarrow> json" where
  "offset_body tot wt xs =
     JObj ((''items'', JList xs) # (if wt then [(''total'', JNum (int tot))] else []))"

definition offset_total :: "nat \<Rightarrow> bool \<Rightarrow> json" where
  "offset_total tot wt = (if wt then JNum (int tot) else JNull)"

definition offset_request :: "client \<Rightarrow> string \<Rightarrow> nat \<Rightarrow> nat \<Rightarrow> request" where
  "offset_request cl ep ps k =
     make_request cl ep [(''offset'', JNum (int (k * ps))), (''page_size'', JNum (int ps))]"

definition offset_state :: "client \<Rightarrow> string \<Rightarrow> nat \<Rightarrow> nat \<Rightarrow> bool \<Rightarrow> nat \<Rightarrow> loop_state" where
  "offset_state cl ep ps tot wt k =
     \<lparr> all_data = map (\<lambda>i. JNum (int i)) [0..<k * ps],
       page = 0,
       offset = int (k * ps),
       cursor = JNull,
       next_url = None,
       total_items = (if 0 < k then offset_total tot wt else JNull),
       pages_retrieved = int k,
       endpoint_var = ep,
       requests = map (offset_request cl ep ps) [0..<k] \<rparr>"

section \<open>Basic facts about the loop\<close>

lemma advance_keeps:
  "all_data (result_state (advance cl cfg st data n)) = all_data st \<and>
   requests (result_state (advance cl cfg st data n)) = requests st \<and>
   pages_retrieved (result_state (advance cl cfg st data n)) = pages_retrieved st"
  by (simp add: advance_def Let_def split: sum.split option.split json.split bool.split)

lemma record_total_keeps:
  "record_total cfg st data = Inr st' \<Longrightarrow>
   all_data st' = all_data st \<and> requests st' = requests st \<and>
   pages_retrieved st' = pages_retrieved st \<and> offset st' = offset st"
  by (auto simp: record_total_def split: if_splits sum.splits)


lemma py_iter_falsy: "\<not> truthy v \<Longrightarrow> py_iter v = Some ys \<Longrightarrow> ys = []"
  by (cases v) auto

lemma process_page_requests:
  "requests (result_state (process_page cl cfg st data)) = requests st"
  by (auto simp: process_page_def Let_def advance_keeps dest: record_total_keeps
      split: sum.split option.split)

lemma process_page_all_data:
  "\<not> is_raise (process_page cl cfg st data) \<Longrightarrow>
   all_data (result_state (process_page cl cfg st data)) = all_data st @ page_items cfg (Body data)"
  by (auto simp: process_page_def page_items_def Let_def advance_keeps
      dest: record_total_keeps py_iter_falsy split: sum.splits option.splits if_splits)

lemma process_page_continue:
  assumes "process_page cl cfg st data = Continue st'"
  obtains items ys st2 where "extract_items (data_key cfg) data = Inr items"
    and "truthy items" and "py_iter items = Some ys"
    and "record_total cfg
           (st\<lparr>all_data := all_data st @ ys,
               pages_retrieved := pages_retrieved st + 1\<rparr>) data = Inr st2"
    and "\<not> max_pages_reached cfg st2" and "\<not> stop_condition_met cfg data"
    and "advance cl cfg st2 data (length ys) = Continue st'"
  using assms
  by (auto simp: process_page_def Let_def split: sum.splits option.splits if_splits)

lemma step_requests:
  "requests (result_state (step cl cfg st)) = requests st @ [next_request cl cfg st]"
  by (simp add: step_def next_request_def Let_def split_def process_page_requests
      split: response.split)

lemma step_all_data:
  "\<not> is_raise (step cl cfg st) \<Longrightarrow>
   all_data (result_state (step cl cfg st)) =
     all_data st @ page_items cfg (session cl (length (requests st)) (next_request cl cfg st))"
  apply (simp add: step_def next_request_def Let_def split_def split: response.splits)
  apply (auto simp: process_page_all_data)
  done

lemma step_body:
  "\<not> is_raise (step cl cfg st) \<Longrightarrow>
   is_body (session cl (length (requests st)) (next_request cl cfg st))"
  by (simp add: step_def next_request_def Let_def split_def split: response.splits)

lemma step_body_eq:
  "session cl (length (requests st)) (next_request cl cfg st) = Body data \<Longrightarrow>
   step cl cfg st =
     process_page cl cfg
       (st\<lparr>endpoint_var := fst (build_request cl cfg st),
           requests := requests st @ [next_request cl cfg st]\<rparr>) data"
  by (simp add: step_def next_request_def Let_def split_def)

lemma step_failed:
  "session cl (length (requests st)) (next_request cl cfg st) = RequestFailed m \<Longrightarrow>
   step cl cfg st = Raise (RequestException m)
     (st\<lparr>endpoint_var := fst (build_request cl cfg st),
         requests := requests st @ [next_request cl cfg st]\<rparr>)"
  by (simp add: step_def next_request_def Let_def split_def)

lemma step_invalid:
  "session cl (length (requests st)) (next_request cl cfg st) = InvalidJSON m \<Longrightarrow>
   step cl cfg st = Raise (JSONDecodeError m)
     (st\<lparr>endpoint_var := fst (build_request cl cfg st),
         requests := requests st @ [next_request cl cfg st]\<rparr>)"
  by (simp add: step_def next_request_def Let_def split_def)

lemma fetched_append:
  "fetched cl n (rqs @ [rq]) = fetched cl n rqs @ [session cl (n + length rqs) rq]"
  by (induction rqs arbitrary: n) auto

lemma length_fetched: "length (fetched cl n rqs) = length rqs"
  by (induction rqs arbitrary: n) auto


lemma state_at_requests:
  "state_at n cl cfg st0 = Some st \<Longrightarrow> length (requests st) = length (requests st0) + n"
proof (induction n arbitrary: st0)
  case 0
  then show ?case by simp
next
  case (Suc n)
  then obtain s1 where s1: "step cl cfg st0 = Continue s1" "state_at n cl cfg s1 = Some st"
    by (auto split: step_result.splits)
  from step_requests [of cl cfg st0] s1(1) have "length (requests s1) = Suc (length (requests st0))"
    by simp
  with Suc.IH [OF s1(2)] show ?case by simp
qed

lemma run_state_at:
  "state_at n cl cfg st0 = Some st \<Longrightarrow> run (n + fuel) cl cfg st0 = run fuel cl cfg st"
  by (induction n arbitrary: st0) (auto split: step_result.splits)

lemma run_fuel_mono:
  "run fuel cl cfg st = Some r \<Longrightarrow> run (fuel + k) cl cfg st = Some r"
  by (induction fuel arbitrary: st) (auto split: step_result.splits)

lemma run_fuel_le:
  "run fuel cl cfg st = Some r \<Longrightarrow> fuel \<le> fuel' \<Longrightarrow> run fuel' cl cfg st = Some r"
  using run_fuel_mono [of fuel cl cfg st r "fuel' - fuel"] by simp

lemma map_of_dict_set:
  "map_of (dict_set d k v) k' = (if k' = k then Some v else map_of d k')"
  by (induction d) auto

section \<open>The returned list\<close>

lemma data_inv_init: "data_inv cl cfg (init_state cfg)"
  by (simp add: data_inv_def init_state_def)

lemma data_inv_step:
  assumes "data_inv cl cfg st" and "\<not> is_raise (step cl cfg st)"
  shows "data_inv cl cfg (result_state (step cl cfg st))"
  using assms by (simp add: data_inv_def step_requests step_all_data fetched_append)

lemma data_inv_run:
  "run fuel cl cfg st = Some (Inr xs, rqs) \<Longrightarrow> data_inv cl cfg st \<Longrightarrow>
   xs = concat (map (page_items cfg) (fetched cl 0 rqs))"
proof (induction fuel arbitrary: st)
  case 0
  then show ?case by simp
next
  case (Suc fuel)
  show ?case
  proof (cases "step cl cfg st")
    case (Continue s1)
    with Suc.prems(2) data_inv_step [of cl cfg st] have "data_inv cl cfg s1" by simp
    with Suc.IH [of s1] Suc.prems(1) Continue show ?thesis by simp
  next
    case (Break s1)
    with Suc.prems(2) data_inv_step [of cl cfg st] have "data_inv cl cfg s1" by simp
    with Suc.prems(1) Break show ?thesis by (simp add: data_inv_def)
  next
    case (Raise e s1)
    with Suc.prems(1) show ?thesis by simp
  qed
qed

lemma run_extends:
  "run fuel cl cfg st = Some (Inr xs, rqs) \<Longrightarrow> \<exists>ys. xs = all_data st @ ys"
proof (induction fuel arbitrary: st)
  case 0
  then show ?case by simp
next
  case (Suc fuel)
  show ?case
  proof (cases "step cl cfg st")
    case (Continue s1)
    with step_all_data [of cl cfg st] obtain zs where zs: "all_data s1 = all_data st @ zs" by simp
    from Suc.IH [of s1] Suc.prems Continue obtain ys where "xs = all_data s1 @ ys" by auto
    with zs show ?thesis by simp
  next
    case (Break s1)
    with step_all_data [of cl cfg st]
    have "all_data s1 = all_data st @
      page_items cfg (session cl (length (requests st)) (next_request cl cfg st))" by simp
    moreover from Suc.prems Break have "xs = all_data s1" by simp
    ultimately show ?thesis by blast
  next
    case (Raise e s1)
    with Suc.prems show ?thesis by simp
  qed
qed

text \<open>
  Claim C8. When \<^verbatim>\<open>get_paginated_data\<close> returns a list, under any pagination type,
  the list is the concatenation, in the order of the requests, of the items taken from
  each fetched page; its length is the sum of the numbers of items of the pages; and
  the list accumulated at the head of every pass of the loop is an initial segment of
  it, so the accumulated list only grows and nothing is dropped or deduplicated.
\<close>

theorem returned_list_is_concatenation:
  assumes "get_paginated_data fuel cl cfg = Some (Inr xs, rqs)"
  shows "xs = concat (map (page_items cfg) (fetched cl 0 rqs)) \<and>
         length xs = sum_list (map (\<lambda>r. length (page_items cfg r)) (fetched cl 0 rqs)) \<and>
         (\<forall>n st. state_at n cl cfg (init_state cfg) = Some st \<longrightarrow>
            all_data st = take (length (all_data st)) xs)"
proof -
  from assms have r: "run fuel cl cfg (init_state cfg) = Some (Inr xs, rqs)"
    by (simp add: get_paginated_data_def)
  from data_inv_run [OF r data_inv_init]
  have c: "xs = concat (map (page_items cfg) (fetched cl 0 rqs))" .
  have l: "length xs = sum_list (map (\<lambda>r. length (page_items cfg r)) (fetched cl 0 rqs))"
    by (subst c) (simp add: length_concat comp_def)
  have g: "all_data st = take (length (all_data st)) xs"
    if s: "state_at n cl cfg (init_state cfg) = Some st" for n st
  proof -
    from run_fuel_le [OF r, of "n + fuel"] run_state_at [OF s, of fuel]
    have "run fuel cl cfg st = Some (Inr xs, rqs)" by simp
    from run_extends [OF this] show ?thesis by auto
  qed
  from c l g show ?thesis by blast
qed

theorem returned_list_is_concatenation_witness:
  "get_paginated_data 2 (PaginatedAPIClient ''http://h/'' cursor_server) cursor_config =
     Some (Inr [JStr ''a'', JStr ''b'', JStr ''c''],
       [\<lparr>req_endpoint = ''/i'', req_url = ''http://h/i'',
          req_params = [(''page_size'', JNum 2)]\<rparr>,
        \<lparr>req_endpoint = ''/i'', req_url = ''http://h/i'',
          req_params = [(''cursor'', JStr ''tok1''), (''page_size'', JNum 2)]\<rparr>]) \<and>
   [JStr ''a'', JStr ''b'', JStr ''c''] =
     concat (map (page_items cursor_config)
       (fetched (PaginatedAPIClient ''http://h/'' cursor_server) 0
         [\<lparr>req_endpoint = ''/i'', req_url = ''http://h/i'',
            req_params = [(''page_size'', JNum 2)]\<rparr>,
          \<lparr>req_endpoint = ''/i'', req_url = ''http://h/i'',
            req_params = [(''cursor'', JStr ''tok1''), (''page_size'', JNum 2)]\<rparr>]))"
proof -
  have h: "get_paginated_data 2 (PaginatedAPIClient ''http://h/'' cursor_server) cursor_config =
     Some (Inr [JStr ''a'', JStr ''b'', JStr ''c''],
       [\<lparr>req_endpoint = ''/i'', req_url = ''http://h/i'',
          req_params = [(''page_size'', JNum 2)]\<rparr>,
        \<lparr>req_endpoint = ''/i'', req_url = ''http://h/i'',
          req_params = [(''cursor'', JStr ''tok1''), (''page_size'', JNum 2)]\<rparr>])"
    by code_simp
  from returned_list_is_concatenation [OF h] h show ?thesis by blast
qed

section \<open>Failures\<close>

lemma bodies_inv_step:
  "bodies_inv cl st \<Longrightarrow> \<not> is_raise (step cl cfg st) \<Longrightarrow>
   bodies_inv cl (result_state (step cl cfg st))"
  by (simp add: bodies_inv_def step_requests fetched_append step_body)

lemma bodies_inv_run:
  "run fuel cl cfg st = Some (Inr xs, rqs) \<Longrightarrow> bodies_inv cl st \<Longrightarrow>
   list_all is_body (fetched cl 0 rqs)"
proof (induction fuel arbitrary: st)
  case 0
  then show ?case by simp
next
  case (Suc fuel)
  show ?case
  proof (cases "step cl cfg st")
    case (Continue s1)
    with Suc.prems(2) bodies_inv_step [of cl st cfg] have "bodies_inv cl s1" by simp
    with Suc.IH [of s1] Suc.prems(1) Continue show ?thesis by simp
  next
    case (Break s1)
    with Suc.prems(2) bodies_inv_step [of cl st cfg] have "bodies_inv cl s1" by simp
    with Suc.prems(1) Break show ?thesis by (simp add: bodies_inv_def)
  next
    case (Raise e s1)
    with Suc.prems(1) show ?thesis by simp
  qed
qed

text \<open>
  Claim C9. Let the loop be at the head of its \<open>n\<close>-th pass, \<open>n\<close> requests issued. If the
  transport fails on the next request, or the body of the response does not parse as
  JSON, then \<^verbatim>\<open>get_paginated_data\<close> raises that exception, with the message it came
  with: no list is returned, and the failed request is the last one issued, so nothing
  is retried. A run that returns a list got a parsed body for every request it issued.
\<close>

theorem failure_propagates:
  assumes "state_at n cl cfg (init_state cfg) = Some st"
  shows "length (requests st) = n \<and>
         (session cl n (next_request cl cfg st) = RequestFailed m \<longrightarrow>
            get_paginated_data (n + Suc fuel) cl cfg =
              Some (Inl (RequestException m), requests st @ [next_request cl cfg st])) \<and>
         (session cl n (next_request cl cfg st) = InvalidJSON m \<longrightarrow>
            get_paginated_data (n + Suc fuel) cl cfg =
              Some (Inl (JSONDecodeError m), requests st @ [next_request cl cfg st])) \<and>
         (get_paginated_data k cl cfg = Some (Inr xs, rqs) \<longrightarrow>
            list_all is_body (fetched cl 0 rqs))"
proof -
  from state_at_requests [OF assms] have n: "length (requests st) = n"
    by (simp add: init_state_def)
  have r: "get_paginated_data (n + Suc fuel) cl cfg = run (Suc fuel) cl cfg st"
    by (simp only: get_paginated_data_def run_state_at [OF assms])
  have a: "get_paginated_data (n + Suc fuel) cl cfg =
      Some (Inl (RequestException m), requests st @ [next_request cl cfg st])"
    if "session cl n (next_request cl cfg st) = RequestFailed m"
  proof -
    from that n have "step cl cfg st = Raise (RequestException m)
       (st\<lparr>endpoint_var := fst (build_request cl cfg st),
           requests := requests st @ [next_request cl cfg st]\<rparr>)"
      by (simp add: step_failed)
    with r show ?thesis by simp
  qed
  have b: "get_paginated_data (n + Suc fuel) cl cfg =
      Some (Inl (JSONDecodeError m), requests st @ [next_request cl cfg st])"
    if "session cl n (next_request cl cfg st) = InvalidJSON m"
  proof -
    from that n have "step cl cfg st = Raise (JSONDecodeError m)
       (st\<lparr>endpoint_var := fst (build_request cl cfg st),
           requests := requests st @ [next_request cl cfg st]\<rparr>)"
      by (simp add: step_invalid)
    with r show ?thesis by simp
  qed
  have c: "list_all is_body (fetched cl 0 rqs)"
    if "get_paginated_data k cl cfg = Some (Inr xs, rqs)"
    using that bodies_inv_run [of k cl cfg "init_state cfg" xs rqs]
    by (simp add: get_paginated_data_def bodies_inv_def init_state_def)
  from n a b c show ?thesis by blast
qed

theorem failure_propagates_witness:
  "state_at 1 (PaginatedAPIClient ''http://h/'' failing_server) (page_config None)
     (init_state (page_config None)) \<noteq> None \<and>
   get_paginated_data 2 (PaginatedAPIClient ''http://h/'' failing_server) (page_config None) =
     Some (Inl (RequestException ''timeout''),
       [\<lparr>req_endpoint = ''/i'', req_url = ''http://h/i'',
          req_params = [(''page'', JNum 1), (''page_size'', JNum 2)]\<rparr>,
        \<lparr>req_endpoint = ''/i'', req_url = ''http://h/i'',
          req_params = [(''page'', JNum 2), (''page_size'', JNum 2)]\<rparr>])"
proof -
  let ?cl = "PaginatedAPIClient ''http://h/'' failing_server"
  let ?cfg = "page_config None"
  let ?st = "the (state_at 1 ?cl ?cfg (init_state ?cfg))"
  have a: "state_at 1 ?cl ?cfg (init_state ?cfg) = Some ?st" by code_simp
  have b: "session ?cl 1 (next_request ?cl ?cfg ?st) = RequestFailed ''timeout''" by code_simp
  have c: "requests ?st @ [next_request ?cl ?cfg ?st] =
       [\<lparr>req_endpoint = ''/i'', req_url = ''http://h/i'',
          req_params = [(''page'', JNum 1), (''page_size'', JNum 2)]\<rparr>,
        \<lparr>req_endpoint = ''/i'', req_url = ''http://h/i'',
          req_params = [(''page'', JNum 2), (''page_size'', JNum 2)]\<rparr>]" by code_simp
  from failure_propagates [OF a, of "''timeout''" 0] b
  have g: "get_paginated_data (1 + Suc 0) ?cl ?cfg =
      Some (Inl (RequestException ''timeout''), requests ?st @ [next_request ?cl ?cfg ?st])"
    by blast
  have e: "1 + Suc 0 = (2::nat)" by simp
  from a have n: "state_at 1 ?cl ?cfg (init_state ?cfg) \<noteq> None"
    by (metis option.distinct(1))
  from g have "get_paginated_data 2 ?cl ?cfg =
      Some (Inl (RequestException ''timeout''),
       [\<lparr>req_endpoint = ''/i'', req_url = ''http://h/i'',
          req_params = [(''page'', JNum 1), (''page_size'', JNum 2)]\<rparr>,
        \<lparr>req_endpoint = ''/i'', req_url = ''http://h/i'',
          req_params = [(''page'', JNum 2), (''page_size'', JNum 2)]\<rparr>])"
    unfolding e c .
  with n show ?thesis by (rule conjI)
qed

section \<open>The offset strategy\<close>







section \<open>Response extraction with a data key\<close>

text \<open>
  Claim C6, as the code has it. With a data key that is not empty, the extraction from
  a JSON object returns the value under the key when the key is present, whatever the
  value is (a list is returned as it is, and so is a value that is not a list), and the
  empty list when the key is absent. On a body that is not an object the extraction
  raises \<^verbatim>\<open>AttributeError\<close>.
\<close>

theorem extract_items_with_data_key:
  "k \<noteq> [] \<Longrightarrow>
   extract_items (Some k) data =
     (case data of
        JObj kvs \<Rightarrow> Inr (case map_of kvs k of None \<Rightarrow> JList [] | Some v \<Rightarrow> v)
      | _ \<Rightarrow> Inl AttributeError)"
  by (cases data) (simp_all add: extract_items_def)

theorem extract_items_with_data_key_witness:
  "''items'' \<noteq> [] \<and>
   extract_items (Some ''items'') (JObj [(''items'', JList [JNum 1])]) = Inr (JList [JNum 1])"
  using extract_items_with_data_key [of "''items''" "JObj [(''items'', JList [JNum 1])]"]
  by simp

text \<open>
  The claim as it was stated fails: a value under the data key that is not a list is
  returned, not replaced by the empty sequence, and a body that is a list makes the
  extraction raise.
\<close>

theorem extract_items_counterexample:
  "extract_items (Some ''items'') (JObj [(''items'', JStr ''ab'')]) = Inr (JStr ''ab'') \<and>
   \<not> is_list (JStr ''ab'') \<and>
   extract_items (Some ''items'') (JList [JNum 1]) = Inl AttributeError"
  by (simp add: extract_items_def)

section \<open>The cursor strategy\<close>

lemma record_total_obj:
  "\<exists>t. record_total cfg st (JObj b) = Inr (st\<lparr>total_items := t\<rparr>)"
  by (cases "str_truthy (total_key cfg) \<and> total_items st = JNull")
    (auto simp: record_total_def intro: exI [of _ "total_items st"])

lemma process_page_cursor_next:
  assumes "pagination_type cfg = ''cursor''"
    and "max_pages cfg = None" and "stop_condition cfg = None"
    and "extract_items (data_key cfg) (JObj b) = Inr (JList xs)" and "xs \<noteq> []"
    and "next_page_value (next_page_key cfg) (JObj b) = Inr (Some tok)"
  shows "\<exists>st'. process_page cl cfg st (JObj b) = Continue st' \<and>
     all_data st' = all_data st @ xs \<and> cursor st' = tok \<and>
     requests st' = requests st \<and> endpoint_var st' = endpoint_var st"
proof -
  obtain t where "record_total cfg
      (st\<lparr>all_data := all_data st @ xs, pages_retrieved := pages_retrieved st + 1\<rparr>) (JObj b) =
      Inr (st\<lparr>all_data := all_data st @ xs, pages_retrieved := pages_retrieved st + 1,
             total_items := t\<rparr>)"
    using record_total_obj by blast
  with assms show ?thesis
    by (simp add: process_page_def max_pages_reached_def stop_condition_met_def advance_def)
qed

lemma process_page_cursor_last:
  assumes "pagination_type cfg = ''cursor''"
    and "max_pages cfg = None" and "stop_condition cfg = None"
    and "extract_items (data_key cfg) (JObj b) = Inr (JList xs)" and "xs \<noteq> []"
    and "next_page_value (next_page_key cfg) (JObj b) = Inr None"
  shows "\<exists>st'. process_page cl cfg st (JObj b) = Break st' \<and>
     all_data st' = all_data st @ xs \<and> requests st' = requests st"
proof -
  obtain t where "record_total cfg
      (st\<lparr>all_data := all_data st @ xs, pages_retrieved := pages_retrieved st + 1\<rparr>) (JObj b) =
      Inr (st\<lparr>all_data := all_data st @ xs, pages_retrieved := pages_retrieved st + 1,
             total_items := t\<rparr>)"
    using record_total_obj by blast
  with assms show ?thesis
    by (simp add: process_page_def max_pages_reached_def stop_condition_met_def advance_def)
qed

lemma build_request_cursor:
  "pagination_type cfg = ''cursor'' \<Longrightarrow>
   build_request cl cfg st =
     (endpoint_var st,
      if truthy (cursor st)
      then dict_set (dict_set (custom_params cfg) ''cursor'' (cursor st))
             (size_param cfg) (JNum (page_size cfg))
      else dict_set (custom_params cfg) (size_param cfg) (JNum (page_size cfg)))"
  by (simp add: build_request_def)

text \<open>
  Claim C5. With the pagination type \<^verbatim>\<open>cursor\<close> and the next-page key \<^verbatim>\<open>next\<close>, let
  the first response be an object with items and a truthy value \<open>tok1\<close> under
  \<^verbatim>\<open>next\<close>, and the second an object with items and \<^verbatim>\<open>null\<close> under \<^verbatim>\<open>next\<close>. Then the
  run issues exactly two requests and returns the items of both pages. The first
  request carries the custom parameters and the size parameter and no cursor of its
  own; the second carries \<^verbatim>\<open>cursor\<close> = \<open>tok1\<close> as well.
\<close>

theorem cursor_two_requests:
  assumes "pagination_type cfg = ''cursor''" and "next_page_key cfg = Some ''next''"
    and "max_pages cfg = None" and "stop_condition cfg = None"
    and "rq1 = make_request cl (endpoint cfg)
           (dict_set (custom_params cfg) (size_param cfg) (JNum (page_size cfg)))"
    and "rq2 = make_request cl (endpoint cfg)
           (dict_set (dict_set (custom_params cfg) ''cursor'' tok1)
              (size_param cfg) (JNum (page_size cfg)))"
    and "session cl 0 rq1 = Body (JObj b1)" and "session cl 1 rq2 = Body (JObj b2)"
    and "map_of b1 ''next'' = Some tok1" and "truthy tok1"
    and "map_of b2 ''next'' = Some JNull"
    and "extract_items (data_key cfg) (JObj b1) = Inr (JList xs1)" and "xs1 \<noteq> []"
    and "extract_items (data_key cfg) (JObj b2) = Inr (JList xs2)" and "xs2 \<noteq> []"
    and "2 \<le> fuel"
  shows "get_paginated_data fuel cl cfg = Some (Inr (xs1 @ xs2), [rq1, rq2]) \<and>
         (size_param cfg \<noteq> ''cursor'' \<longrightarrow>
            map_of (req_params rq1) ''cursor'' = map_of (custom_params cfg) ''cursor'' \<and>
            map_of (req_params rq2) ''cursor'' = Some tok1)"
proof -
  let ?s0 = "init_state cfg"
  have r1: "next_request cl cfg ?s0 = rq1"
    by (simp add: next_request_def build_request_cursor assms(1,5) init_state_def)
  have n1: "next_page_value (next_page_key cfg) (JObj b1) = Inr (Some tok1)"
    by (simp add: next_page_value_def assms(2,9,10))
  have n2: "next_page_value (next_page_key cfg) (JObj b2) = Inr None"
    by (simp add: next_page_value_def assms(2,11))
  let ?s0' = "?s0\<lparr>endpoint_var := fst (build_request cl cfg ?s0),
                   requests := requests ?s0 @ [next_request cl cfg ?s0]\<rparr>"
  from assms(7) r1 have p1: "step cl cfg ?s0 = process_page cl cfg ?s0' (JObj b1)"
    by (simp add: step_body_eq init_state_def)
  have i0: "all_data ?s0' = []" "requests ?s0' = [rq1]" "endpoint_var ?s0' = endpoint cfg"
    by (simp_all add: r1) (simp_all add: init_state_def build_request_cursor assms(1))
  from process_page_cursor_next [OF assms(1,3,4,12,13) n1, of cl ?s0']
  have "\<exists>s1. step cl cfg ?s0 = Continue s1 \<and> all_data s1 = xs1 \<and> cursor s1 = tok1 \<and>
     requests s1 = [rq1] \<and> endpoint_var s1 = endpoint cfg"
    unfolding p1 [symmetric] i0 by simp
  then obtain s1 where s1: "step cl cfg ?s0 = Continue s1" and d1: "all_data s1 = xs1"
    and c1: "cursor s1 = tok1" and q1: "requests s1 = [rq1]"
    and e1: "endpoint_var s1 = endpoint cfg"
    by blast
  have r2: "next_request cl cfg s1 = rq2"
    by (simp add: next_request_def build_request_cursor assms(1,6,10) c1 e1)
  let ?s1' = "s1\<lparr>endpoint_var := fst (build_request cl cfg s1),
                  requests := requests s1 @ [next_request cl cfg s1]\<rparr>"
  from assms(8) r2 q1 have p2: "step cl cfg s1 = process_page cl cfg ?s1' (JObj b2)"
    by (simp add: step_body_eq)
  have i1: "all_data ?s1' = xs1" "requests ?s1' = [rq1, rq2]"
    by (simp_all add: r2 d1 q1)
  from process_page_cursor_last [OF assms(1,3,4,14,15) n2, of cl ?s1']
  have "\<exists>s2. step cl cfg s1 = Break s2 \<and> all_data s2 = xs1 @ xs2 \<and> requests s2 = [rq1, rq2]"
    unfolding p2 [symmetric] i1 by simp
  then obtain s2 where s2: "step cl cfg s1 = Break s2" and d2: "all_data s2 = xs1 @ xs2"
    and q2: "requests s2 = [rq1, rq2]"
    by blast
  from assms(16) obtain k where k: "fuel = Suc (Suc k)"
    by (metis Suc_le_D numeral_2_eq_2 Suc_le_mono)
  have g: "get_paginated_data fuel cl cfg = Some (Inr (xs1 @ xs2), [rq1, rq2])"
    by (simp add: get_paginated_data_def k s1 s2 d2 q2)
  have m: "map_of (req_params rq1) ''cursor'' = map_of (custom_params cfg) ''cursor'' \<and>
           map_of (req_params rq2) ''cursor'' = Some tok1" if "size_param cfg \<noteq> ''cursor''"
    using that by (auto simp: assms(5,6) make_request_def map_of_dict_set)
  from g m show ?thesis by blast
qed

theorem cursor_two_requests_witness:
  "get_paginated_data 2 (PaginatedAPIClient ''http://h/'' cursor_server) cursor_config =
     Some (Inr ([JStr ''a'', JStr ''b''] @ [JStr ''c'']),
       [\<lparr>req_endpoint = ''/i'', req_url = ''http://h/i'',
          req_params = [(''page_size'', JNum 2)]\<rparr>,
        \<lparr>req_endpoint = ''/i'', req_url = ''http://h/i'',
          req_params = [(''cursor'', JStr ''tok1''), (''page_size'', JNum 2)]\<rparr>])"
proof -
  let ?cl = "PaginatedAPIClient ''http://h/'' cursor_server"
  let ?rq1 = "\<lparr>req_endpoint = ''/i'', req_url = ''http://h/i'',
          req_params = [(''page_size'', JNum 2)]\<rparr>"
  let ?rq2 = "\<lparr>req_endpoint = ''/i'', req_url = ''http://h/i'',
          req_params = [(''cursor'', JStr ''tok1''), (''page_size'', JNum 2)]\<rparr>"
  let ?b1 = "[(''items'', JList [JStr ''a'', JStr ''b'']), (''next'', JStr ''tok1'')]"
  let ?b2 = "[(''items'', JList [JStr ''c'']), (''next'', JNull)]"
  have h1: "pagination_type cursor_config = ''cursor''" by code_simp
  have h2: "next_page_key cursor_config = Some ''next''" by code_simp
  have h3: "max_pages cursor_config = None" by code_simp
  have h4: "stop_condition cursor_config = None"
    by (simp add: cursor_config_def default_config_def)
  have h5: "?rq1 = make_request ?cl (endpoint cursor_config)
           (dict_set (custom_params cursor_config) (size_param cursor_config)
              (JNum (page_size cursor_config)))" by code_simp
  have h6: "?rq2 = make_request ?cl (endpoint cursor_config)
           (dict_set (dict_set (custom_params cursor_config) ''cursor'' (JStr ''tok1''))
              (size_param cursor_config) (JNum (page_size cursor_config)))" by code_simp
  have h7: "session ?cl 0 ?rq1 = Body (JObj ?b1)" by code_simp
  have h8: "session ?cl 1 ?rq2 = Body (JObj ?b2)" by code_simp
  have h9: "map_of ?b1 ''next'' = Some (JStr ''tok1'')" by simp
  have h10: "truthy (JStr ''tok1'')" by simp
  have h11: "map_of ?b2 ''next'' = Some JNull" by simp
  have h12: "extract_items (data_key cursor_config) (JObj ?b1) =
      Inr (JList [JStr ''a'', JStr ''b''])" by code_simp
  have h13: "[JStr ''a'', JStr ''b''] \<noteq> []" by simp
  have h14: "extract_items (data_key cursor_config) (JObj ?b2) = Inr (JList [JStr ''c''])"
    by code_simp
  have h15: "[JStr ''c''] \<noteq> []" by simp
  have h16: "(2::nat) \<le> 2" by simp
  from cursor_two_requests [OF h1 h2 h3 h4 h5 h6 h7 h8 h9 h10 h11 h12 h13 h14 h15 h16]
  show ?thesis by (rule conjunct1)
qed

section \<open>The offset strategy against the simulated endpoint\<close>

lemma extract_items_offset_body:
  "extract_items None (offset_body tot wt xs) = Inr (JList xs)"
  by (simp add: offset_body_def extract_items_def find_data_array_def common_keys_def)

lemma record_total_offset_body:
  assumes "total_key cfg = Some ''total''"
    and "total_items st = JNull \<or> total_items st = offset_total tot wt"
  shows "record_total cfg st (offset_body tot wt xs) = Inr (st\<lparr>total_items := offset_total tot wt\<rparr>)"
  using assms by (auto simp: record_total_def offset_body_def offset_total_def)

lemma process_page_offset_full:
  assumes "pagination_type cfg = ''offset''" and "data_key cfg = None"
    and "total_key cfg = Some ''total''" and "max_pages cfg = None"
    and "stop_condition cfg = None" and "page_size cfg = int (length xs)" and "xs \<noteq> []"
    and "total_items st = JNull \<or> total_items st = offset_total tot wt"
    and "offset st + int (length xs) < int tot"
  shows "process_page cl cfg st (offset_body tot wt xs) =
     Continue (st\<lparr>all_data := all_data st @ xs,
                  pages_retrieved := pages_retrieved st + 1,
                  total_items := offset_total tot wt,
                  offset := offset st + int (length xs)\<rparr>)"
proof -
  let ?st1 = "st\<lparr>all_data := all_data st @ xs, pages_retrieved := pages_retrieved st + 1\<rparr>"
  let ?st2 = "?st1\<lparr>total_items := offset_total tot wt\<rparr>"
  from assms(8) have "record_total cfg ?st1 (offset_body tot wt xs) = Inr ?st2"
    by (intro record_total_offset_body [OF assms(3)]) simp
  moreover have "advance cl cfg ?st2 (offset_body tot wt xs) (length xs) =
      Continue (?st2\<lparr>offset := offset st + int (length xs)\<rparr>)"
    using assms(1,6,9) by (cases wt) (simp_all add: advance_def offset_total_def)
  ultimately show ?thesis
    using assms(2,4,5,7)
    by (simp add: process_page_def extract_items_offset_body max_pages_reached_def
        stop_condition_met_def)
qed

lemma process_page_offset_partial:
  assumes "pagination_type cfg = ''offset''" and "data_key cfg = None"
    and "total_key cfg = Some ''total''" and "max_pages cfg = None"
    and "stop_condition cfg = None" and "int (length xs) < page_size cfg" and "xs \<noteq> []"
    and "total_items st = JNull \<or> total_items st = offset_total tot wt"
  shows "process_page cl cfg st (offset_body tot wt xs) =
     Break (st\<lparr>all_data := all_data st @ xs,
               pages_retrieved := pages_retrieved st + 1,
               total_items := offset_total tot wt\<rparr>)"
proof -
  let ?st1 = "st\<lparr>all_data := all_data st @ xs, pages_retrieved := pages_retrieved st + 1\<rparr>"
  let ?st2 = "?st1\<lparr>total_items := offset_total tot wt\<rparr>"
  from assms(8) have "record_total cfg ?st1 (offset_body tot wt xs) = Inr ?st2"
    by (intro record_total_offset_body [OF assms(3)]) simp
  moreover have "advance cl cfg ?st2 (offset_body tot wt xs) (length xs) = Break ?st2"
    using assms(1,6) by (simp add: advance_def)
  ultimately show ?thesis
    using assms(2,4,5,7)
    by (simp add: process_page_def extract_items_offset_body max_pages_reached_def
        stop_condition_met_def)
qed

lemma offset_endpoint_answer:
  "offset_endpoint tot wt n (offset_request cl ep ps k) =
   Body (offset_body tot wt (map (\<lambda>i. JNum (int i)) [k * ps..<min tot (k * ps + ps)]))"
  by (simp add: offset_endpoint_def offset_request_def make_request_def offset_body_def
      flip: of_nat_mult)

lemma offset_build_request:
  "build_request cl ((default_config ep)\<lparr>page_size := int ps\<rparr>) (offset_state cl ep ps tot wt k) =
     (ep, [(''offset'', JNum (int (k * ps))), (''page_size'', JNum (int ps))])"
  by (simp add: build_request_def default_config_def offset_state_def)

lemma offset_next_request:
  "next_request cl ((default_config ep)\<lparr>page_size := int ps\<rparr>) (offset_state cl ep ps tot wt k) =
     offset_request cl ep ps k"
  by (simp only: next_request_def offset_build_request offset_request_def fst_conv snd_conv)

lemma offset_state_init:
  "init_state ((default_config ep)\<lparr>page_size := int ps\<rparr>) = offset_state cl ep ps tot wt 0"
  by (simp add: init_state_def default_config_def offset_state_def)

lemma offset_step_body:
  assumes "session cl = offset_endpoint tot wt"
  shows "step cl ((default_config ep)\<lparr>page_size := int ps\<rparr>) (offset_state cl ep ps tot wt k) =
     process_page cl ((default_config ep)\<lparr>page_size := int ps\<rparr>)
       ((offset_state cl ep ps tot wt k)\<lparr>requests := map (offset_request cl ep ps) [0..<Suc k]\<rparr>)
       (offset_body tot wt (map (\<lambda>i. JNum (int i)) [k * ps..<min tot (k * ps + ps)]))"
proof -
  let ?cfg = "(default_config ep)\<lparr>page_size := int ps\<rparr>"
  let ?st = "offset_state cl ep ps tot wt k"
  have b: "session cl (length (requests ?st)) (next_request cl ?cfg ?st) =
     Body (offset_body tot wt (map (\<lambda>i. JNum (int i)) [k * ps..<min tot (k * ps + ps)]))"
    by (simp only: assms offset_next_request offset_endpoint_answer)
  have "?st\<lparr>endpoint_var := fst (build_request cl ?cfg ?st),
            requests := requests ?st @ [next_request cl ?cfg ?st]\<rparr> =
        ?st\<lparr>requests := map (offset_request cl ep ps) [0..<Suc k]\<rparr>"
    unfolding offset_next_request offset_build_request by (simp add: offset_state_def)
  with step_body_eq [OF b] show ?thesis by simp
qed

lemma offset_step_full:
  assumes "session cl = offset_endpoint tot wt" and "0 < ps" and "Suc k * ps < tot"
  shows "step cl ((default_config ep)\<lparr>page_size := int ps\<rparr>) (offset_state cl ep ps tot wt k) =
     Continue (offset_state cl ep ps tot wt (Suc k))"
proof -
  let ?cfg = "(default_config ep)\<lparr>page_size := int ps\<rparr>"
  let ?st = "(offset_state cl ep ps tot wt k)\<lparr>requests := map (offset_request cl ep ps) [0..<Suc k]\<rparr>"
  let ?xs = "map (\<lambda>i. JNum (int i)) [k * ps..<k * ps + ps]"
  have sk: "Suc k * ps = k * ps + ps" by simp
  from assms(3) have lt: "k * ps + ps < tot" by (simp only: sk)
  then have m: "min tot (k * ps + ps) = k * ps + ps" by simp
  have l: "length ?xs = ps" by simp
  have ne: "?xs \<noteq> []" using assms(2) by simp
  have u: "[0..<k * ps + ps] = [0..<k * ps] @ [k * ps..<k * ps + ps]"
    by (rule upt_add_eq_append) simp
  have o: "offset ?st = int (k * ps)" by (simp add: offset_state_def)
  have p: "process_page cl ?cfg ?st (offset_body tot wt ?xs) =
     Continue (?st\<lparr>all_data := all_data ?st @ ?xs,
                  pages_retrieved := pages_retrieved ?st + 1,
                  total_items := offset_total tot wt,
                  offset := offset ?st + int (length ?xs)\<rparr>)"
  proof (rule process_page_offset_full)
    show "page_size ?cfg = int (length ?xs)" by (simp add: default_config_def)
    show "?xs \<noteq> []" by (rule ne)
    show "total_items ?st = JNull \<or> total_items ?st = offset_total tot wt"
      by (simp add: offset_state_def)
    from lt have "int (k * ps) + int ps < int tot" by linarith
    then show "offset ?st + int (length ?xs) < int tot" by (simp only: o l)
  qed (simp_all add: default_config_def)
  have e: "?st\<lparr>all_data := all_data ?st @ ?xs,
                  pages_retrieved := pages_retrieved ?st + 1,
                  total_items := offset_total tot wt,
                  offset := offset ?st + int (length ?xs)\<rparr> = offset_state cl ep ps tot wt (Suc k)"
    unfolding offset_state_def sk u l by simp
  show ?thesis
    by (simp only: offset_step_body [OF assms(1)] m p e)
qed

lemma offset_step_partial:
  assumes "session cl = offset_endpoint tot wt" and "k * ps < tot" and "tot < k * ps + ps"
  shows "\<exists>st'. step cl ((default_config ep)\<lparr>page_size := int ps\<rparr>)
             (offset_state cl ep ps tot wt k) = Break st' \<and>
           all_data st' = map (\<lambda>i. JNum (int i)) [0..<tot] \<and>
           requests st' = map (offset_request cl ep ps) [0..<Suc k]"
proof -
  let ?cfg = "(default_config ep)\<lparr>page_size := int ps\<rparr>"
  let ?st = "(offset_state cl ep ps tot wt k)\<lparr>requests := map (offset_request cl ep ps) [0..<Suc k]\<rparr>"
  let ?xs = "map (\<lambda>i. JNum (int i)) [k * ps..<tot]"
  from assms(3) have m: "min tot (k * ps + ps) = tot" by simp
  from assms(2) have ne: "?xs \<noteq> []" by simp
  from assms(2) have "[0..<k * ps + (tot - k * ps)] = [0..<k * ps] @ [k * ps..<k * ps + (tot - k * ps)]"
    by (intro upt_add_eq_append) simp
  with assms(2) have u: "[0..<tot] = [0..<k * ps] @ [k * ps..<tot]" by simp
  have p: "process_page cl ?cfg ?st (offset_body tot wt ?xs) =
     Break (?st\<lparr>all_data := all_data ?st @ ?xs,
               pages_retrieved := pages_retrieved ?st + 1,
               total_items := offset_total tot wt\<rparr>)"
  proof (rule process_page_offset_partial)
    from assms(2,3) have "length ?xs < ps" by simp
    then have "int (length ?xs) < int ps" by (simp only: of_nat_less_iff)
    then show "int (length ?xs) < page_size ?cfg"
      by (simp add: default_config_def)
    show "?xs \<noteq> []" by (rule ne)
    show "total_items ?st = JNull \<or> total_items ?st = offset_total tot wt"
      by (simp add: offset_state_def)
  qed (simp_all add: default_config_def)
  have "all_data (offset_state cl ep ps tot wt k) = map (\<lambda>i. JNum (int i)) [0..<k * ps]"
    by (simp add: offset_state_def)
  then have a: "all_data (offset_state cl ep ps tot wt k) @ ?xs =
      map (\<lambda>i. JNum (int i)) [0..<tot]"
    by (simp only: u map_append)
  show ?thesis
    by (simp only: offset_step_body [OF assms(1)] m p) (simp add: a)
qed

lemma offset_run:
  assumes "session cl = offset_endpoint tot wt" and "0 < ps" and "tot mod ps \<noteq> 0"
  shows "d = tot div ps - k \<Longrightarrow> k \<le> tot div ps \<Longrightarrow>
     run (Suc d + j) cl ((default_config ep)\<lparr>page_size := int ps\<rparr>)
       (offset_state cl ep ps tot wt k) =
     Some (Inr (map (\<lambda>i. JNum (int i)) [0..<tot]),
           map (offset_request cl ep ps) [0..<Suc (tot div ps)])"
proof (induction d arbitrary: k)
  case 0
  then have k: "k = tot div ps" by simp
  from assms(2,3) have lo: "k * ps < tot" unfolding k
    by (metis div_mult_mod_eq less_add_same_cancel1 neq0_conv)
  from assms(2) have hi: "tot < k * ps + ps" unfolding k
    by (metis div_mult_mod_eq mod_less_divisor nat_add_left_cancel_less)
  from offset_step_partial [OF assms(1) lo hi, of ep]
  show ?case by (auto simp: k)
next
  case (Suc d)
  then have lt: "k < tot div ps" and d: "d = tot div ps - Suc k" and le: "Suc k \<le> tot div ps"
    by simp_all
  from le have "Suc k * ps \<le> (tot div ps) * ps" by (rule mult_le_mono1)
  also from assms(2,3) have "(tot div ps) * ps < tot"
    by (metis div_mult_mod_eq less_add_same_cancel1 neq0_conv)
  finally have f: "Suc k * ps < tot" .
  from Suc.IH [OF d le] offset_step_full [OF assms(1,2) f, of ep]
  show ?case by simp
qed

lemma ceiling_div_partial:
  assumes "0 < ps" and "tot mod ps \<noteq> 0"
  shows "\<lceil>real tot / real ps\<rceil> = int (tot div ps + 1)"
proof -
  from assms have lo: "(tot div ps) * ps < tot"
    by (metis div_mult_mod_eq less_add_same_cancel1 neq0_conv)
  from assms(1) have hi: "tot < (tot div ps) * ps + ps"
    by (metis div_mult_mod_eq mod_less_divisor nat_add_left_cancel_less)
  from lo have "real (tot div ps) * real ps < real tot"
    by (metis of_nat_less_iff of_nat_mult)
  with assms(1) have a: "real (tot div ps) < real tot / real ps"
    by (simp add: pos_less_divide_eq)
  from hi have "real tot < (real (tot div ps) + 1) * real ps"
    by (metis (no_types, opaque_lifting) Suc_eq_plus1 mult_Suc of_nat_Suc of_nat_less_iff
        of_nat_mult add.commute)
  with assms(1) have b: "real tot / real ps \<le> real (tot div ps) + 1"
    by (simp add: pos_divide_le_eq)
  from a b show ?thesis by (simp add: ceiling_eq_iff)
qed

text \<open>
  The two stops of the offset strategy: a page shorter than the page size, and an
  offset that has reached a known total.
\<close>

lemma offset_stops_at_partial_page:
  "pagination_type cfg = ''offset'' \<Longrightarrow> int n < page_size cfg \<Longrightarrow>
   advance cl cfg st data n = Break st"
  by (simp add: advance_def)

lemma offset_stops_at_total:
  assumes "pagination_type cfg = ''offset''" and "\<not> int n < page_size cfg"
    and "total_items st = JNum t" and "t \<noteq> 0" and "t \<le> offset st + int n"
  shows "advance cl cfg st data n = Break (st\<lparr>offset := offset st + int n\<rparr>)"
  using assms by (simp add: advance_def)

text \<open>
  Let the endpoint answer with objects, hold \<open>tot\<close> items and serve them in pages of
  \<open>ps\<close>, the last page partial (\<open>tot\<close> is not a multiple of \<open>ps\<close>), with or without
  reporting the total. With the default arguments, the page size \<open>ps\<close> and no page limit,
  the offset run returns exactly the \<open>tot\<close> items, in order, and issues exactly
  \<open>\<lceil>tot / ps\<rceil>\<close> requests. The \<open>k\<close>-th request carries the offset \<open>k * ps\<close>, the number
  of items taken so far, and the page size; the partial page ends the run with the
  list returned. Any fuel of at least the number of requests gives this result.
\<close>

lemma offset_run_complete:
  assumes "0 < ps" and "tot mod ps \<noteq> 0"
    and "session cl = offset_endpoint tot wt"
    and "tot div ps + 1 \<le> fuel"
  shows "get_paginated_data fuel cl ((default_config ep)\<lparr>page_size := int ps\<rparr>) =
           Some (Inr (map (\<lambda>i. JNum (int i)) [0..<tot]),
                 map (\<lambda>k. make_request cl ep
                        [(''offset'', JNum (int (k * ps))), (''page_size'', JNum (int ps))])
                   [0..<tot div ps + 1]) \<and>
         length (map (\<lambda>i. JNum (int i)) [0..<tot]) = tot \<and>
         int (length [0..<tot div ps + 1]) = \<lceil>real tot / real ps\<rceil>"
proof -
  from assms(4) obtain j where j: "fuel = Suc (tot div ps - 0) + j"
    by (metis Suc_eq_plus1 diff_zero le_Suc_ex)
  have r: "(\<lambda>k. make_request cl ep
        [(''offset'', JNum (int (k * ps))), (''page_size'', JNum (int ps))]) =
      offset_request cl ep ps"
    by (simp add: offset_request_def fun_eq_iff)
  from offset_run [OF assms(3,1,2) refl, where k = 0 and j = j and ep = ep]
  have "get_paginated_data fuel cl ((default_config ep)\<lparr>page_size := int ps\<rparr>) =
     Some (Inr (map (\<lambda>i. JNum (int i)) [0..<tot]),
           map (offset_request cl ep ps) [0..<Suc (tot div ps)])"
    unfolding get_paginated_data_def j offset_state_init [where ep = ep and ps = ps and cl = cl and tot = tot and wt = wt] by simp
  with ceiling_div_partial [OF assms(1,2)] show ?thesis
    unfolding r by simp
qed

lemma offset_run_complete_example:
  "(0::nat) < 2 \<and> (5::nat) mod 2 \<noteq> 0 \<and>
   get_paginated_data 3 (PaginatedAPIClient ''http://h/'' (offset_endpoint 5 True))
     ((default_config ''/i'')\<lparr>page_size := int 2\<rparr>) =
     Some (Inr [JNum 0, JNum 1, JNum 2, JNum 3, JNum 4],
       [\<lparr>req_endpoint = ''/i'', req_url = ''http://h/i'',
          req_params = [(''offset'', JNum 0), (''page_size'', JNum 2)]\<rparr>,
        \<lparr>req_endpoint = ''/i'', req_url = ''http://h/i'',
          req_params = [(''offset'', JNum 2), (''page_size'', JNum 2)]\<rparr>,
        \<lparr>req_endpoint = ''/i'', req_url = ''http://h/i'',
          req_params = [(''offset'', JNum 4), (''page_size'', JNum 2)]\<rparr>])"
proof -
  let ?cl = "PaginatedAPIClient ''http://h/'' (offset_endpoint 5 True)"
  have h1: "(0::nat) < 2" by simp
  have h2: "(5::nat) mod 2 \<noteq> 0" by simp
  have h3: "session ?cl = offset_endpoint 5 True" by (simp add: PaginatedAPIClient_def)
  have h4: "(5::nat) div 2 + 1 \<le> 3" by simp
  have e1: "map (\<lambda>i. JNum (int i)) [0..<5] = [JNum 0, JNum 1, JNum 2, JNum 3, JNum 4]"
    by code_simp
  have e2: "map (\<lambda>k. make_request ?cl ''/i''
                [(''offset'', JNum (int (k * 2))), (''page_size'', JNum (int 2))])
              [0..<5 div 2 + 1] =
       [\<lparr>req_endpoint = ''/i'', req_url = ''http://h/i'',
          req_params = [(''offset'', JNum 0), (''page_size'', JNum 2)]\<rparr>,
        \<lparr>req_endpoint = ''/i'', req_url = ''http://h/i'',
          req_params = [(''offset'', JNum 2), (''page_size'', JNum 2)]\<rparr>,
        \<lparr>req_endpoint = ''/i'', req_url = ''http://h/i'',
          req_params = [(''offset'', JNum 4), (''page_size'', JNum 2)]\<rparr>]"
    by code_simp
  from offset_run_complete [OF h1 h2 h3 h4, of "''/i''"]
  have "get_paginated_data 3 ?cl ((default_config ''/i'')\<lparr>page_size := int 2\<rparr>) =
     Some (Inr (map (\<lambda>i. JNum (int i)) [0..<5]),
           map (\<lambda>k. make_request ?cl ''/i''
                  [(''offset'', JNum (int (k * 2))), (''page_size'', JNum (int 2))])
             [0..<5 div 2 + 1])"
    by (rule conjunct1)
  then have "get_paginated_data 3 ?cl ((default_config ''/i'')\<lparr>page_size := int 2\<rparr>) =
     Some (Inr [JNum 0, JNum 1, JNum 2, JNum 3, JNum 4],
       [\<lparr>req_endpoint = ''/i'', req_url = ''http://h/i'',
          req_params = [(''offset'', JNum 0), (''page_size'', JNum 2)]\<rparr>,
        \<lparr>req_endpoint = ''/i'', req_url = ''http://h/i'',
          req_params = [(''offset'', JNum 2), (''page_size'', JNum 2)]\<rparr>,
        \<lparr>req_endpoint = ''/i'', req_url = ''http://h/i'',
          req_params = [(''offset'', JNum 4), (''page_size'', JNum 2)]\<rparr>])"
    unfolding e1 e2 .
  with h1 h2 show ?thesis by blast
qed

text \<open>
  When the items fill the last page and the endpoint reports the total, the run ends
  at the known total: the offset reaches it after the last full page, and no further
  request is issued.
\<close>

lemma process_page_offset_total:
  assumes "pagination_type cfg = ''offset''" and "data_key cfg = None"
    and "total_key cfg = Some ''total''" and "max_pages cfg = None"
    and "stop_condition cfg = None" and "page_size cfg = int (length xs)" and "xs \<noteq> []"
    and "total_items st = JNull \<or> total_items st = offset_total tot True"
    and "int tot \<le> offset st + int (length xs)" and "tot \<noteq> 0"
  shows "process_page cl cfg st (offset_body tot True xs) =
     Break (st\<lparr>all_data := all_data st @ xs,
               pages_retrieved := pages_retrieved st + 1,
               total_items := offset_total tot True,
               offset := offset st + int (length xs)\<rparr>)"
proof -
  let ?st1 = "st\<lparr>all_data := all_data st @ xs, pages_retrieved := pages_retrieved st + 1\<rparr>"
  let ?st2 = "?st1\<lparr>total_items := offset_total tot True\<rparr>"
  from assms(8) have "record_total cfg ?st1 (offset_body tot True xs) = Inr ?st2"
    by (intro record_total_offset_body [OF assms(3)]) simp
  moreover have "advance cl cfg ?st2 (offset_body tot True xs) (length xs) =
      Break (?st2\<lparr>offset := offset st + int (length xs)\<rparr>)"
    using assms(1,6,9,10) by (simp add: advance_def offset_total_def)
  ultimately show ?thesis
    using assms(2,4,5,7)
    by (simp add: process_page_def extract_items_offset_body max_pages_reached_def
        stop_condition_met_def)
qed

lemma offset_step_total:
  assumes "session cl = offset_endpoint tot True" and "0 < ps" and "Suc k * ps = tot"
  shows "\<exists>st'. step cl ((default_config ep)\<lparr>page_size := int ps\<rparr>)
             (offset_state cl ep ps tot True k) = Break st' \<and>
           all_data st' = map (\<lambda>i. JNum (int i)) [0..<tot] \<and>
           requests st' = map (offset_request cl ep ps) [0..<Suc k]"
proof -
  let ?cfg = "(default_config ep)\<lparr>page_size := int ps\<rparr>"
  let ?st = "(offset_state cl ep ps tot True k)\<lparr>requests := map (offset_request cl ep ps) [0..<Suc k]\<rparr>"
  let ?xs = "map (\<lambda>i. JNum (int i)) [k * ps..<k * ps + ps]"
  have sk: "Suc k * ps = k * ps + ps" by simp
  from assms(3) have t: "tot = k * ps + ps" by (simp only: sk)
  then have m: "min tot (k * ps + ps) = k * ps + ps" by simp
  have l: "length ?xs = ps" by simp
  have ne: "?xs \<noteq> []" using assms(2) by simp
  have u: "[0..<k * ps + ps] = [0..<k * ps] @ [k * ps..<k * ps + ps]"
    by (rule upt_add_eq_append) simp
  have o: "offset ?st = int (k * ps)" by (simp add: offset_state_def)
  have p: "process_page cl ?cfg ?st (offset_body tot True ?xs) =
     Break (?st\<lparr>all_data := all_data ?st @ ?xs,
               pages_retrieved := pages_retrieved ?st + 1,
               total_items := offset_total tot True,
               offset := offset ?st + int (length ?xs)\<rparr>)"
  proof (rule process_page_offset_total)
    show "page_size ?cfg = int (length ?xs)" by (simp add: default_config_def)
    show "?xs \<noteq> []" by (rule ne)
    show "total_items ?st = JNull \<or> total_items ?st = offset_total tot True"
      by (simp add: offset_state_def)
    have "int tot = int (k * ps) + int ps" by (simp only: t of_nat_add)
    then show "int tot \<le> offset ?st + int (length ?xs)" by (simp only: o l)
    from assms(2) t show "tot \<noteq> 0" by simp
  qed (simp_all add: default_config_def)
  have "all_data (offset_state cl ep ps tot True k) = map (\<lambda>i. JNum (int i)) [0..<k * ps]"
    by (simp add: offset_state_def)
  then have a: "all_data (offset_state cl ep ps tot True k) @ ?xs =
      map (\<lambda>i. JNum (int i)) [0..<tot]"
    by (simp only: t u map_append)
  show ?thesis
    by (simp only: offset_step_body [OF assms(1)] m p) (simp add: a)
qed

lemma offset_run_total:
  assumes "session cl = offset_endpoint tot True" and "0 < ps" and "tot = Suc m * ps"
  shows "d = m - k \<Longrightarrow> k \<le> m \<Longrightarrow>
     run (Suc d + j) cl ((default_config ep)\<lparr>page_size := int ps\<rparr>)
       (offset_state cl ep ps tot True k) =
     Some (Inr (map (\<lambda>i. JNum (int i)) [0..<tot]),
           map (offset_request cl ep ps) [0..<Suc m])"
proof (induction d arbitrary: k)
  case 0
  then have k: "k = m" by simp
  from assms(3) have "Suc k * ps = tot" by (simp only: k)
  from offset_step_total [OF assms(1,2) this, of ep]
  show ?case by (auto simp: k)
next
  case (Suc d)
  then have lt: "k < m" and d: "d = m - Suc k" and le: "Suc k \<le> m"
    by simp_all
  from lt have "Suc (Suc k) \<le> Suc m" by simp
  then have "Suc (Suc k) * ps \<le> Suc m * ps" by (rule mult_le_mono1)
  moreover from assms(2) have "Suc k * ps < Suc (Suc k) * ps" by simp
  ultimately have f: "Suc k * ps < tot" by (simp only: assms(3))
  from Suc.IH [OF d le] offset_step_full [OF assms(1,2) f, of ep]
  show ?case by simp
qed

lemma offset_run_exact_multiple:
  assumes "0 < ps" and "0 < tot" and "tot mod ps = 0"
    and "session cl = offset_endpoint tot True"
    and "tot div ps \<le> fuel"
  shows "get_paginated_data fuel cl ((default_config ep)\<lparr>page_size := int ps\<rparr>) =
           Some (Inr (map (\<lambda>i. JNum (int i)) [0..<tot]),
                 map (offset_request cl ep ps) [0..<tot div ps])"
proof -
  from assms(1,2,3) have "0 < tot div ps"
    by (metis div_greater_zero_iff dvd_imp_le mod_eq_0_iff_dvd)
  then obtain m where m: "tot div ps = Suc m" by (metis Suc_pred)
  with assms(3) have t: "tot = Suc m * ps" by (metis div_mult_mod_eq add.right_neutral)
  from assms(5) m obtain j where j: "fuel = Suc (m - 0) + j"
    by (metis diff_zero le_Suc_ex)
  from offset_run_total [OF assms(4,1) t refl, where k = 0 and j = j and ep = ep]
  show ?thesis
    unfolding get_paginated_data_def j m
      offset_state_init [where ep = ep and ps = ps and cl = cl and tot = tot and wt = True]
    by simp
qed

text \<open>
  A body that is a bare list passes the extraction, which returns it as the items, and
  then meets \<^verbatim>\<open>data.get(total_key)\<close>: with a total key set and no total recorded yet,
  the first page that is not empty raises \<^verbatim>\<open>AttributeError\<close>.
\<close>

lemma list_body_raises:
  assumes "\<not> str_truthy (data_key cfg)" and "xs \<noteq> []"
    and "str_truthy (total_key cfg)" and "total_items st = JNull"
  shows "process_page cl cfg st (JList xs) =
     Raise AttributeError
       (st\<lparr>all_data := all_data st @ xs, pages_retrieved := pages_retrieved st + 1\<rparr>)"
  using assms by (simp add: process_page_def extract_items_def record_total_def)

text \<open>
  Claim C4 says that against a simulated endpoint that serves \<open>total\<close> items in pages,
  the last one partial, the offset run returns the \<open>total\<close> items in
  \<open>\<lceil>total / page_size\<rceil>\<close> requests. An endpoint that answers with bare lists is one the
  extraction provides for, in its branch \<^verbatim>\<open>isinstance(data, list)\<close>. Against it, with
  five items in pages of two and the default arguments, the run raises
  \<^verbatim>\<open>AttributeError\<close> on the first page and returns nothing.
\<close>

theorem offset_bare_list_endpoint_raises:
  "get_paginated_data 3 (PaginatedAPIClient ''http://h/'' (offset_list_endpoint 5))
     ((default_config ''/i'')\<lparr>page_size := 2\<rparr>) =
     Some (Inl AttributeError,
       [\<lparr>req_endpoint = ''/i'', req_url = ''http://h/i'',
          req_params = [(''offset'', JNum 0), (''page_size'', JNum 2)]\<rparr>])"
  by code_simp

text \<open>With the total key switched off the same endpoint is paged through as claimed.\<close>

lemma offset_bare_list_without_total_key:
  "get_paginated_data 3 (PaginatedAPIClient ''http://h/'' (offset_list_endpoint 5))
     ((default_config ''/i'')\<lparr>page_size := 2, total_key := None\<rparr>) =
     Some (Inr [JNum 0, JNum 1, JNum 2, JNum 3, JNum 4],
       [\<lparr>req_endpoint = ''/i'', req_url = ''http://h/i'',
          req_params = [(''offset'', JNum 0), (''page_size'', JNum 2)]\<rparr>,
        \<lparr>req_endpoint = ''/i'', req_url = ''http://h/i'',
          req_params = [(''offset'', JNum 2), (''page_size'', JNum 2)]\<rparr>,
        \<lparr>req_endpoint = ''/i'', req_url = ''http://h/i'',
          req_params = [(''offset'', JNum 4), (''page_size'', JNum 2)]\<rparr>])"
  by code_simp

section \<open>The spacing of the rate limiter\<close>

lemma wait_if_needed_min_interval:
  "min_interval (fst (wait_if_needed rl t lag)) = min_interval rl"
  by (simp add: wait_if_needed_def Let_def)

lemma wait_if_needed_records:
  "last_call_time (fst (wait_if_needed rl t lag)) = snd (snd (wait_if_needed rl t lag))"
  by (simp add: wait_if_needed_def Let_def)

lemma wait_if_needed_spacing:
  "0 \<le> lag \<Longrightarrow> last_call_time rl + min_interval rl \<le> snd (snd (wait_if_needed rl t lag))"
  by (simp add: wait_if_needed_def Let_def)

lemma wait_if_needed_exact:
  "snd (snd (wait_if_needed rl t 0)) = max t (last_call_time rl + min_interval rl)"
  by (simp add: wait_if_needed_def Let_def max_def)

lemma invocations_length: "length (invocations rl t calls) = length calls"
  by (induction calls arbitrary: rl t) (auto split: prod.splits)

lemma invocations_span:
  assumes "list_all (\<lambda>(gap, lag). 0 \<le> lag) calls" and "calls \<noteq> []"
  shows "real (length calls - 1) * min_interval rl \<le>
         last (invocations rl t calls) - hd (invocations rl t calls)"
  using assms
proof (induction calls arbitrary: rl t)
  case Nil
  then show ?case by simp
next
  case (Cons c calls)
  obtain gap lag where c: "c = (gap, lag)" by (cases c)
  let ?w = "wait_if_needed rl (t + gap) lag"
  let ?rl = "fst ?w"
  let ?t = "snd (snd ?w)"
  have i: "invocations rl t (c # calls) = ?t # invocations ?rl ?t calls"
    by (simp add: c split: prod.splits)
  show ?case
  proof (cases calls)
    case Nil
    then show ?thesis by (simp add: c split: prod.splits)
  next
    case (Cons d rest)
    obtain gap' lag' where d: "d = (gap', lag')" by (cases d)
    from Cons.prems(1) Cons d have l': "0 \<le> lag'" and a: "list_all (\<lambda>(gap, lag). 0 \<le> lag) calls"
      by simp_all
    from Cons have ne: "calls \<noteq> []" by simp
    from Cons.IH [OF a ne, of ?rl ?t]
    have ih: "real (length calls - 1) * min_interval rl \<le>
        last (invocations ?rl ?t calls) - hd (invocations ?rl ?t calls)"
      by (simp add: wait_if_needed_min_interval)
    let ?w' = "wait_if_needed ?rl (?t + gap') lag'"
    have h: "hd (invocations ?rl ?t calls) = snd (snd ?w')"
      by (simp add: Cons d split: prod.splits)
    from wait_if_needed_spacing [OF l', of ?rl "?t + gap'"]
    have s: "?t + min_interval rl \<le> hd (invocations ?rl ?t calls)"
      by (simp add: h wait_if_needed_records wait_if_needed_min_interval)
    have n: "invocations ?rl ?t calls \<noteq> []"
      using invocations_length [of ?rl ?t calls] ne by (metis length_0_conv)
    have "real (length (c # calls) - 1) * min_interval rl =
        real (length calls - 1) * min_interval rl + min_interval rl"
      using ne by (cases calls) (simp_all add: algebra_simps)
    with ih s show ?thesis by (simp add: i n)
  qed
qed

text \<open>
  Claim C7, as the code has it. For a fresh limiter (last call time 0) the first
  invocation sleeps zero time whenever the clock reads at least
  \<open>1 / calls_per_second\<close>, as Unix time does for every rate in practical use. Every
  invocation records the time of its second clock reading as the last call time, and
  that time is at least \<open>1 / calls_per_second\<close> after the last call time before it;
  when nothing lags it is exactly the later of the time of entry and that bound. So
  a run of consecutive invocations spans at least \<open>(N - 1) / calls_per_second\<close>
  seconds from the first return to the last, which is \<open>(N - 1) \<times> 0.2\<close> for five calls per
  second. Arithmetic is exact here; the rounding of floating-point numbers is left out.
\<close>

theorem rate_limiter_spacing:
  assumes "RateLimiter_init cps = Inr rl0"
    and "0 \<le> lag"
    and "list_all (\<lambda>(gap, lag). 0 \<le> lag) calls"
  shows "(min_interval rl0 \<le> t \<longrightarrow> fst (snd (wait_if_needed rl0 t lag)) = 0) \<and>
         last_call_time (fst (wait_if_needed rl t lag)) = snd (snd (wait_if_needed rl t lag)) \<and>
         last_call_time rl + min_interval rl \<le> snd (snd (wait_if_needed rl t lag)) \<and>
         snd (snd (wait_if_needed rl t 0)) = max t (last_call_time rl + min_interval rl) \<and>
         (calls \<noteq> [] \<longrightarrow>
            real (length calls - 1) * (1 / cps) \<le>
              last (invocations rl0 t calls) - hd (invocations rl0 t calls))"
proof -
  from assms(1) have m: "min_interval rl0 = 1 / cps" and l: "last_call_time rl0 = 0"
    by (auto simp: RateLimiter_init_def split: if_splits)
  have a: "fst (snd (wait_if_needed rl0 t lag)) = 0" if "min_interval rl0 \<le> t"
    using that by (simp add: wait_if_needed_def Let_def l)
  have b: "real (length calls - 1) * (1 / cps) \<le>
      last (invocations rl0 t calls) - hd (invocations rl0 t calls)" if "calls \<noteq> []"
    using invocations_span [OF assms(3) that, of rl0 t] by (simp only: m)
  from a b wait_if_needed_records [of rl t lag] wait_if_needed_spacing [OF assms(2), of rl t]
    wait_if_needed_exact [of rl t]
  show ?thesis by blast
qed

theorem rate_limiter_spacing_witness:
  "RateLimiter_init 5 = Inr \<lparr>calls_per_second = 5, min_interval = 1 / 5, last_call_time = 0\<rparr> \<and>
   fst (snd (wait_if_needed
     \<lparr>calls_per_second = 5, min_interval = 1 / 5, last_call_time = 0\<rparr> 1762000000 0)) = 0 \<and>
   real (length [(0::real, 0::real), (0, 0), (0, 0)] - 1) * (1 / 5) \<le>
     last (invocations \<lparr>calls_per_second = 5, min_interval = 1 / 5, last_call_time = 0\<rparr>
             1762000000 [(0, 0), (0, 0), (0, 0)]) -
     hd (invocations \<lparr>calls_per_second = 5, min_interval = 1 / 5, last_call_time = 0\<rparr>
             1762000000 [(0, 0), (0, 0), (0, 0)])"
proof -
  let ?rl = "\<lparr>calls_per_second = 5, min_interval = 1 / 5, last_call_time = 0\<rparr>"
  have h1: "RateLimiter_init 5 = Inr ?rl" by (simp add: RateLimiter_init_def)
  have h2: "(0::real) \<le> 0" by simp
  have h3: "list_all (\<lambda>(gap, lag). 0 \<le> lag) [(0::real, 0::real), (0, 0), (0, 0)]" by simp
  have h4: "min_interval ?rl \<le> 1762000000" by simp
  have h5: "[(0::real, 0::real), (0, 0), (0, 0)] \<noteq> []" by simp
  from rate_limiter_spacing [OF h1 h2 h3, of 1762000000 ?rl] h1 h4 h5
  show ?thesis by blast
qed

text \<open>
  The claim as it was stated fails: on a fresh limiter for one call in \<open>10\<^sup>1\<^sup>0\<close> seconds,
  entered when the Unix clock reads 1762000000, the first invocation sleeps.
\<close>

theorem first_invocation_blocks_counterexample:
  "RateLimiter_init (1 / 10 ^ 10) =
     Inr \<lparr>calls_per_second = 1 / 10 ^ 10, min_interval = 10 ^ 10, last_call_time = 0\<rparr> \<and>
   fst (snd (wait_if_needed
     \<lparr>calls_per_second = 1 / 10 ^ 10, min_interval = 10 ^ 10, last_call_time = 0\<rparr>
     1762000000 0)) = 8238000000"
  by (simp add: RateLimiter_init_def wait_if_needed_def Let_def)

section \<open>The page limit\<close>

text \<open>
  A page limit that is not zero stops the run as soon as as many pages are retrieved,
  before the stop condition of the caller is looked at.
\<close>

lemma max_pages_stops_first:
  assumes "max_pages cfg = Some m" and "m \<noteq> 0" and "m \<le> pages_retrieved st + 1"
    and "extract_items (data_key cfg) data = Inr items" and "truthy items"
    and "py_iter items = Some xs"
    and "record_total cfg (st\<lparr>all_data := all_data st @ xs,
            pages_retrieved := pages_retrieved st + 1\<rparr>) data = Inr st2"
  shows "process_page cl cfg st data = Break st2"
proof -
  from record_total_keeps [OF assms(7)] assms(3) have "m \<le> pages_retrieved st2" by simp
  with assms show ?thesis by (simp add: process_page_def max_pages_reached_def)
qed

text \<open>
  Against a server that always serves a full page of ten items, the page strategy with
  a limit of three pages returns thirty items and issues three requests.
\<close>

lemma max_pages_three_example:
  "map_option (\<lambda>r. (map_sum id length (fst r), length (snd r)))
     (get_paginated_data 3 (PaginatedAPIClient ''http://h/'' (always_full_server 10))
       ((default_config ''/i'')\<lparr>pagination_type := ''page'', page_size := 10,
          max_pages := Some 3\<rparr>)) = Some (Inr 30, 3)"
  by code_simp

text \<open>
  Claim C3 says that the run stops as soon as \<^verbatim>\<open>pages_retrieved >= max_pages\<close> for every
  integer \<^verbatim>\<open>max_pages\<close>. The test in the code is \<^verbatim>\<open>max_pages and \<dots>\<close>, so the limit 0
  counts as no limit: with \<^verbatim>\<open>max_pages=0\<close>, against a server that holds four full
  pages, the run retrieves all four and ends only at the empty page that follows.
\<close>

theorem max_pages_zero_is_no_limit:
  "get_paginated_data 5 (PaginatedAPIClient ''http://h/'' (full_pages_server 4))
     (page_config (Some 0)) =
     Some (Inr [JNum 0, JNum 1, JNum 2, JNum 3, JNum 4, JNum 5, JNum 6, JNum 7],
       [\<lparr>req_endpoint = ''/i'', req_url = ''http://h/i'',
          req_params = [(''page'', JNum 1), (''page_size'', JNum 2)]\<rparr>,
        \<lparr>req_endpoint = ''/i'', req_url = ''http://h/i'',
          req_params = [(''page'', JNum 2), (''page_size'', JNum 2)]\<rparr>,
        \<lparr>req_endpoint = ''/i'', req_url = ''http://h/i'',
          req_params = [(''page'', JNum 3), (''page_size'', JNum 2)]\<rparr>,
        \<lparr>req_endpoint = ''/i'', req_url = ''http://h/i'',
          req_params = [(''page'', JNum 4), (''page_size'', JNum 2)]\<rparr>,
        \<lparr>req_endpoint = ''/i'', req_url = ''http://h/i'',
          req_params = [(''page'', JNum 5), (''page_size'', JNum 2)]\<rparr>])"
  by code_simp

section \<open>The URL strategy\<close>

text \<open>
  Once a next-URL is stored, the request is built from it alone: the page number has
  no part in it.
\<close>

lemma build_request_url_stale:
  "pagination_type cfg = ''url'' \<Longrightarrow> str_truthy (next_url st) \<Longrightarrow>
   build_request cl cfg (st\<lparr>page := p\<rparr>) = build_request cl cfg st"
  by (simp add: build_request_def)

text \<open>
  Claim C1 says that after a full page without a next-link the request is built from
  the incremented page number, also when an earlier page supplied a next-link. The
  loop never clears \<^verbatim>\<open>next_url\<close>: here the first page links to \<^verbatim>\<open>/j?p=9\<close>, the second
  and third pages are full and link to nothing, and the third and fourth requests
  follow the stale link again instead of carrying \<^verbatim>\<open>page\<close> and \<^verbatim>\<open>page_size\<close>.
\<close>

theorem stale_next_url_followed_again:
  "get_paginated_data 4 (PaginatedAPIClient ''http://h/'' stale_server) url_config =
     Some (Inr [JNum 1, JNum 2, JNum 3, JNum 4, JNum 3, JNum 4],
       [\<lparr>req_endpoint = ''/i'', req_url = ''http://h/i'',
          req_params = [(''page'', JNum 1), (''page_size'', JNum 2)]\<rparr>,
        \<lparr>req_endpoint = ''/j'', req_url = ''http://h/j'', req_params = [(''p'', JStr ''9'')]\<rparr>,
        \<lparr>req_endpoint = ''/j'', req_url = ''http://h/j'', req_params = [(''p'', JStr ''9'')]\<rparr>,
        \<lparr>req_endpoint = ''/j'', req_url = ''http://h/j'', req_params = [(''p'', JStr ''9'')]\<rparr>])"
  by code_simp

text \<open>The page number is incremented all the same; it is just never sent.\<close>

lemma stale_page_incremented:
  "map_option page (state_at 3 (PaginatedAPIClient ''http://h/'' stale_server) url_config
     (init_state url_config)) = Some 3"
  by code_simp

lemma dict_update_nonempty:
  "(if c \<noteq> [] then dict_update p c else p) = dict_update p c"
  by (cases c) simp_all

lemma advance_url_next:
  assumes "pagination_type cfg = ''url''"
    and "next_page_value (next_page_key cfg) data = Inr (Some (JStr s))"
  shows "advance cl cfg st data n =
     Continue (st\<lparr>next_url :=
       Some (if startswith s ''http://'' \<or> startswith s ''https://'' then s
             else urljoin cl (base_url cl) s)\<rparr>)"
  using assms by (simp add: advance_def)

text \<open>
  In the URL strategy, when a page that lets the loop continue carries a truthy string
  \<open>s\<close> under the next-page key, the stored next-URL \<open>u\<close> is \<open>s\<close> itself when \<open>s\<close>
  starts with \<^verbatim>\<open>http://\<close> or \<^verbatim>\<open>https://\<close>, and \<^verbatim>\<open>urljoin(base_url, s)\<close> otherwise: a
  relative link is resolved against the base URL, an absolute one is kept as it is.
  The next request is built from the path and the query of \<open>u\<close> alone: its endpoint
  is the path, its parameters are those of the query with the custom parameters
  written over them, and its URL is \<^verbatim>\<open>urljoin(base_url, path)\<close>.
\<close>

lemma url_next_request:
  assumes "pagination_type cfg = ''url''"
    and "session cl (length (requests st)) (next_request cl cfg st) = Body data"
    and "step cl cfg st = Continue st'"
    and "next_page_value (next_page_key cfg) data = Inr (Some (JStr s))"
    and "u = (if startswith s ''http://'' \<or> startswith s ''https://'' then s
              else urljoin cl (base_url cl) s)"
    and "u \<noteq> []"
  shows "next_url st' = Some u \<and>
         next_request cl cfg st' =
           \<lparr> req_endpoint = url_path (urlparse cl u),
             req_url = urljoin cl (base_url cl) (url_path (urlparse cl u)),
             req_params = dict_update (single_values (parse_qs cl (url_query (urlparse cl u))))
                            (custom_params cfg) \<rparr>"
proof -
  from assms(3) have "process_page cl cfg
       (st\<lparr>endpoint_var := fst (build_request cl cfg st),
           requests := requests st @ [next_request cl cfg st]\<rparr>) data = Continue st'"
    by (simp only: step_body_eq [OF assms(2)])
  then obtain ys :: "json list" and st2
    where "advance cl cfg st2 data (length ys) = Continue st'"
    by (rule process_page_continue)
  with advance_url_next [OF assms(1,4), of cl st2 "length ys"] assms(5)
  have n: "next_url st' = Some u" by auto
  with assms(1,6) have "build_request cl cfg st' =
      (url_path (urlparse cl u),
       dict_update (single_values (parse_qs cl (url_query (urlparse cl u)))) (custom_params cfg))"
    by (simp add: build_request_def Let_def dict_update_nonempty)
  with n show ?thesis by (simp add: next_request_def make_request_def)
qed

lemma url_next_request_example:
  "next_url (the (state_at 1 (PaginatedAPIClient ''http://a/'' foreign_server) url_config
      (init_state url_config))) = Some ''http://b/i?page=2'' \<and>
   next_request (PaginatedAPIClient ''http://a/'' foreign_server) url_config
     (the (state_at 1 (PaginatedAPIClient ''http://a/'' foreign_server) url_config
        (init_state url_config))) =
     \<lparr>req_endpoint = ''/i'', req_url = ''http://a/i'', req_params = [(''page'', JStr ''2'')]\<rparr>"
proof -
  let ?cl = "PaginatedAPIClient ''http://a/'' foreign_server"
  let ?st = "init_state url_config"
  let ?st' = "the (state_at 1 ?cl url_config ?st)"
  let ?data = "JObj [(''items'', JList [JNum 1, JNum 2]), (''next'', JStr ''http://b/i?page=2'')]"
  let ?u = "''http://b/i?page=2''"
  have h1: "pagination_type url_config = ''url''" by code_simp
  have h2: "session ?cl (length (requests ?st)) (next_request ?cl url_config ?st) = Body ?data"
    by code_simp
  have h3: "step ?cl url_config ?st = Continue ?st'" by code_simp
  have h4: "next_page_value (next_page_key url_config) ?data = Inr (Some (JStr ?u))"
    by code_simp
  have h5: "?u = (if startswith ?u ''http://'' \<or> startswith ?u ''https://'' then ?u
              else urljoin ?cl (base_url ?cl) ?u)" by code_simp
  have h6: "?u \<noteq> []" by simp
  have e: "\<lparr> req_endpoint = url_path (urlparse ?cl ?u),
             req_url = urljoin ?cl (base_url ?cl) (url_path (urlparse ?cl ?u)),
             req_params = dict_update (single_values (parse_qs ?cl (url_query (urlparse ?cl ?u))))
                            (custom_params url_config) \<rparr> =
     \<lparr>req_endpoint = ''/i'', req_url = ''http://a/i'', req_params = [(''page'', JStr ''2'')]\<rparr>"
    by code_simp
  from url_next_request [OF h1 h2 h3 h4 h5 h6] show ?thesis unfolding e .
qed

text \<open>
  Claim C2 says that an absolute next-URL is followed unmodified: the request after it
  is issued to exactly that URL. The loop keeps the absolute URL as it is, but then
  passes only its path to \<^verbatim>\<open>_make_request\<close>, which joins the path to the base URL. Here
  the first page links to \<^verbatim>\<open>http://b/i?page=2\<close>, and the client of \<^verbatim>\<open>http://a\<close> sends
  the second request to \<^verbatim>\<open>http://a/i\<close>.
\<close>

theorem absolute_next_url_requested_on_base_host:
  "get_paginated_data 2 (PaginatedAPIClient ''http://a/'' foreign_server) url_config =
     Some (Inr [JNum 1, JNum 2],
       [\<lparr>req_endpoint = ''/i'', req_url = ''http://a/i'',
          req_params = [(''page'', JNum 1), (''page_size'', JNum 2)]\<rparr>,
        \<lparr>req_endpoint = ''/i'', req_url = ''http://a/i'',
          req_params = [(''page'', JStr ''2'')]\<rparr>]) \<and>
   foreign_server 0 \<lparr>req_endpoint = ''/i'', req_url = ''http://a/i'',
          req_params = [(''page'', JNum 1), (''page_size'', JNum 2)]\<rparr> =
     Body (JObj [(''items'', JList [JNum 1, JNum 2]), (''next'', JStr ''http://b/i?page=2'')])"
  by code_simp

end
